theory Spec2Isabelle
  imports Complex_Main "HOL-Library.Multiset"
begin

section \<open>Data model (types.ts)\<close>

text \<open>
  A flashcard has an identifier, a term and a definition, and an optional star flag
  (\<^verbatim>\<open>isStarred?: boolean\<close>): the flag is \<open>None\<close> where the property is absent.
  The field names carry a suffix where the source's name is reserved in Isabelle.
\<close>

record flashcard =
  id_card :: string
  term_card :: string
  definition_card :: string
  isStarred :: "bool option"

record study_set =
  topic :: string
  cards :: "flashcard list"

text \<open>
  The state hooks of React: a call \<^verbatim>\<open>setX(v)\<close> queues the replacement of the state by
  \<open>v\<close>, a call \<^verbatim>\<open>setX(prev => f(prev))\<close> queues the function \<open>f\<close>. The queue of one
  event handler is run in order on the state of the render the handler belongs to, and the
  handler itself only ever reads the values of that render.
\<close>

datatype 'a set_state = Replace 'a | Updater "'a \<Rightarrow> 'a"

fun run_update :: "'a set_state \<Rightarrow> 'a \<Rightarrow> 'a" where
  "run_update (Replace v) prev = v"
| "run_update (Updater f) prev = f prev"

definition run_queue :: "'a set_state list \<Rightarrow> 'a \<Rightarrow> 'a" where
  "run_queue queue state = fold run_update queue state"

text \<open>\<^verbatim>\<open>xs[0] || null\<close> on an array of objects: the first element, or null.\<close>

definition first_or_null :: "'a list \<Rightarrow> 'a option" where
  "first_or_null xs = (case xs of [] \<Rightarrow> None | x # _ \<Rightarrow> Some x)"

text \<open>
  \<^verbatim>\<open>shuffleArray\<close> sorts a copy of the array with a random comparator. The random
  source is a parameter of every function that shuffles: a function from lists to lists,
  one for each call site, of which the theorems assume only that it permutes its argument.
\<close>

definition is_shuffle :: "('a list \<Rightarrow> 'a list) \<Rightarrow> bool" where
  "is_shuffle sh \<longleftrightarrow> (\<forall>xs. mset (sh xs) = mset xs)"


section \<open>Strings\<close>

text \<open>
  Strings are lists of code units, here restricted to the 8-bit range (Latin-1).
  \<^verbatim>\<open>String.prototype.trim\<close> removes white space and line terminators at both ends;
  \<^verbatim>\<open>toLowerCase\<close> maps the upper-case letters of that range to lower case.
\<close>

definition isWhiteSpace :: "char \<Rightarrow> bool" where
  "isWhiteSpace c \<longleftrightarrow> (of_char c :: nat) \<in> {9, 10, 11, 12, 13, 32, 160}"

definition trim :: "string \<Rightarrow> string" where
  "trim s = rev (dropWhile isWhiteSpace (rev (dropWhile isWhiteSpace s)))"

definition toLowerCase_char :: "char \<Rightarrow> char" where
  "toLowerCase_char c =
     (let n = (of_char c :: nat)
      in if (65 \<le> n \<and> n \<le> 90) \<or> (192 \<le> n \<and> n \<le> 222 \<and> n \<noteq> 215)
         then char_of (n + 32) else c)"

definition toLowerCase :: "string \<Rightarrow> string" where
  "toLowerCase s = map toLowerCase_char s"


section \<open>Write mode: calculateLevenshteinDistance\<close>

text \<open>
  The table \<^verbatim>\<open>matrix\<close> has \<open>b.length + 1\<close> rows of \<open>a.length + 1\<close> cells, every cell
  null at first (\<open>None\<close>). Arithmetic on a cell reads null as 0 (\<open>num\<close>). The three loops
  of the source are folds over their index ranges.
\<close>

type_synonym matrix = "nat option list list"

definition num :: "nat option \<Rightarrow> nat" where
  "num v = (case v of None \<Rightarrow> 0 | Some n \<Rightarrow> n)"

definition new_matrix :: "'a list \<Rightarrow> 'a list \<Rightarrow> matrix" where
  "new_matrix a b = replicate (length b + 1) (replicate (length a + 1) None)"

definition put :: "matrix \<Rightarrow> nat \<Rightarrow> nat \<Rightarrow> nat \<Rightarrow> matrix" where
  "put m j i v = m[j := (m ! j)[i := Some v]]"

definition first_row :: "'a list \<Rightarrow> matrix \<Rightarrow> matrix" where
  "first_row a m = fold (\<lambda>i m. put m 0 i i) [0..<length a + 1] m"

definition first_column :: "'a list \<Rightarrow> matrix \<Rightarrow> matrix" where
  "first_column b m = fold (\<lambda>j m. put m j 0 j) [0..<length b + 1] m"

definition cell :: "'a list \<Rightarrow> 'a list \<Rightarrow> nat \<Rightarrow> nat \<Rightarrow> matrix \<Rightarrow> matrix" where
  "cell a b j i m =
     (let substitutionCost = (if a ! (i - 1) = b ! (j - 1) then 0 else 1)
      in put m j i
           (min (min (num (m ! j ! (i - 1)) + 1) (num (m ! (j - 1) ! i) + 1))
                (num (m ! (j - 1) ! (i - 1)) + substitutionCost)))"

definition fill_row :: "'a list \<Rightarrow> 'a list \<Rightarrow> nat \<Rightarrow> matrix \<Rightarrow> matrix" where
  "fill_row a b j m = fold (cell a b j) [1..<length a + 1] m"

definition fill_rows :: "'a list \<Rightarrow> 'a list \<Rightarrow> matrix \<Rightarrow> matrix" where
  "fill_rows a b m = fold (fill_row a b) [1..<length b + 1] m"

definition levenshtein_matrix :: "'a list \<Rightarrow> 'a list \<Rightarrow> matrix" where
  "levenshtein_matrix a b = fill_rows a b (first_column b (first_row a (new_matrix a b)))"

definition calculateLevenshteinDistance :: "'a list \<Rightarrow> 'a list \<Rightarrow> nat option" where
  "calculateLevenshteinDistance a b =
     (if length a = 0 then Some (length b)
      else if length b = 0 then Some (length a)
      else levenshtein_matrix a b ! length b ! length a)"


subsection \<open>The edit distance of the specification\<close>

text \<open>
  One edit inserts, deletes or substitutes a single character at any position. The edit
  distance of \<open>a\<close> and \<open>b\<close> is the least number of edits that transform \<open>a\<close> into \<open>b\<close>.
\<close>

inductive edit1 :: "'a list \<Rightarrow> 'a list \<Rightarrow> bool" where
  insertion: "edit1 (xs @ ys) (xs @ c # ys)"
| deletion: "edit1 (xs @ c # ys) (xs @ ys)"
| substitution: "c \<noteq> d \<Longrightarrow> edit1 (xs @ c # ys) (xs @ d # ys)"

definition edits :: "nat \<Rightarrow> 'a list \<Rightarrow> 'a list \<Rightarrow> bool" where
  "edits n a b \<longleftrightarrow> (a, b) \<in> {(x, y). edit1 x y} ^^ n"

definition edit_distance :: "'a list \<Rightarrow> 'a list \<Rightarrow> nat" where
  "edit_distance a b = (LEAST n. edits n a b)"

text \<open>The textbook recursion, used to relate the table to the edits.\<close>

fun lev :: "'a list \<Rightarrow> 'a list \<Rightarrow> nat" where
  "lev [] ys = length ys"
| "lev (x # xs) [] = length (x # xs)"
| "lev (x # xs) (y # ys) =
     min (min (lev xs (y # ys) + 1) (lev (x # xs) ys + 1))
         (lev xs ys + (if x = y then 0 else 1))"

definition prefix_distance :: "'a list \<Rightarrow> 'a list \<Rightarrow> nat \<Rightarrow> nat \<Rightarrow> nat" where
  "prefix_distance a b i j = lev (rev (take i a)) (rev (take j b))"

definition dims :: "'a list \<Rightarrow> 'a list \<Rightarrow> matrix \<Rightarrow> bool" where
  "dims a b m \<longleftrightarrow> length m = length b + 1 \<and> (\<forall>j \<le> length b. length (m ! j) = length a + 1)"

definition filled :: "'a list \<Rightarrow> 'a list \<Rightarrow> matrix \<Rightarrow> nat \<Rightarrow> nat \<Rightarrow> bool" where
  "filled a b m J I \<longleftrightarrow>
     dims a b m \<and>
     (\<forall>j i. j \<le> length b \<longrightarrow> i \<le> length a \<longrightarrow> (j = 0 \<or> i = 0 \<or> j < J \<or> (j = J \<and> i < I)) \<longrightarrow>
        m ! j ! i = Some (prefix_distance a b i j))"


section \<open>Write mode: grading and the two-pool scheduler\<close>

text \<open>
  The grading of \<^verbatim>\<open>handleAnswerSubmit\<close>: both strings trimmed and lower-cased, an exact
  match first, else the distance against a threshold that depends on the length of the
  correct answer. The comparison \<^verbatim>\<open>distance <= threshold\<close> reads its left side as a number.
\<close>

definition isCorrect :: "string \<Rightarrow> string \<Rightarrow> bool" where
  "isCorrect inputValue term_of_card =
     (let userAnswer = toLowerCase (trim inputValue);
          correctAnswer = toLowerCase (trim term_of_card)
      in if userAnswer = correctAnswer then True
         else (let distance = calculateLevenshteinDistance userAnswer correctAnswer;
                   threshold = (if length correctAnswer > 7 then 2 else 1 :: nat)
               in num distance \<le> threshold))"

datatype answer_state = unanswered | correct | incorrect

record write_state =
  remainingCards :: "flashcard list"
  incorrectlyAnswered :: "flashcard list"
  correctlyAnswered :: "flashcard list"
  currentCard :: "flashcard option"
  inputValue :: string
  answerState :: answer_state

text \<open>The effect on \<^verbatim>\<open>cards\<close>: a new session.\<close>

definition write_start :: "(flashcard list \<Rightarrow> flashcard list) \<Rightarrow> flashcard list \<Rightarrow> write_state" where
  "write_start shuffleArray cs =
     (let newSessionCards = shuffleArray cs
      in \<lparr>remainingCards = newSessionCards, incorrectlyAnswered = [], correctlyAnswered = [],
          currentCard = first_or_null newSessionCards, inputValue = [],
          answerState = unanswered\<rparr>)"

text \<open>
  \<^verbatim>\<open>handleAnswerSubmit\<close> returns at once unless the card is unanswered, there is a
  current card and the input is not blank. Otherwise it grades, records the card in one of
  the two answered lists and starts the timer of \<^verbatim>\<open>nextCard\<close>.
\<close>

definition submit_accepted :: "write_state \<Rightarrow> bool" where
  "submit_accepted s \<longleftrightarrow>
     answerState s = unanswered \<and> currentCard s \<noteq> None \<and> trim (inputValue s) \<noteq> []"

definition handleAnswerSubmit :: "write_state \<Rightarrow> write_state" where
  "handleAnswerSubmit s =
     (case currentCard s of
        None \<Rightarrow> s
      | Some c \<Rightarrow>
          if answerState s \<noteq> unanswered \<or> trim (inputValue s) = [] then s
          else if isCorrect (inputValue s) (term_card c)
          then s\<lparr>answerState := correct,
                 correctlyAnswered := run_queue [Updater (\<lambda>prev. prev @ [c])] (correctlyAnswered s)\<rparr>
          else s\<lparr>answerState := incorrect,
                 incorrectlyAnswered := run_queue [Updater (\<lambda>prev. prev @ [c])] (incorrectlyAnswered s)\<rparr>)"

text \<open>
  \<^verbatim>\<open>nextCard\<close> is the closure of the render \<open>r\<close> in which the answer was submitted: it
  reads \<^verbatim>\<open>remainingCards\<close> and \<^verbatim>\<open>incorrectlyAnswered\<close> of \<open>r\<close>, and its updates are
  applied to the state \<open>s\<close> at the time the timer fires. The two calls of
  \<^verbatim>\<open>shuffleArray(incorrectlyAnswered)\<close> are separate draws \<open>shuffle1\<close> and \<open>shuffle2\<close>.
\<close>

definition nextCard ::
  "(flashcard list \<Rightarrow> flashcard list) \<Rightarrow> (flashcard list \<Rightarrow> flashcard list) \<Rightarrow>
   write_state \<Rightarrow> write_state \<Rightarrow> write_state" where
  "nextCard shuffle1 shuffle2 r s =
     (let nextQueue = (if length (remainingCards r) > 1 then drop 1 (remainingCards r)
                       else shuffle1 (incorrectlyAnswered r))
      in s\<lparr>inputValue := [], answerState := unanswered,
           remainingCards :=
             (if length (remainingCards r) > 1
              then run_queue [Replace (drop 1 (remainingCards r))] (remainingCards s)
              else run_queue [Replace (shuffle2 (incorrectlyAnswered r))] (remainingCards s)),
           incorrectlyAnswered :=
             (if length (remainingCards r) > 1 then incorrectlyAnswered s
              else run_queue [Replace []] (incorrectlyAnswered s)),
           currentCard := first_or_null nextQueue\<rparr>)"

text \<open>
  One answer of the user: the input is typed (render \<open>r\<close>), the form is submitted, and
  the timer started by the submission fires. The input field is disabled in between.
\<close>

definition answer ::
  "(flashcard list \<Rightarrow> flashcard list) \<Rightarrow> (flashcard list \<Rightarrow> flashcard list) \<Rightarrow>
   string \<Rightarrow> write_state \<Rightarrow> write_state" where
  "answer shuffle1 shuffle2 typed s =
     (let r = s\<lparr>inputValue := typed\<rparr>
      in if submit_accepted r then nextCard shuffle1 shuffle2 r (handleAnswerSubmit r) else r)"

text \<open>A session as the list of the answers typed, one after the other.\<close>

fun answers ::
  "(flashcard list \<Rightarrow> flashcard list) \<Rightarrow> string list \<Rightarrow> write_state \<Rightarrow> write_state" where
  "answers shuffleArray [] s = s"
| "answers shuffleArray (typed # rest) s =
     answers shuffleArray rest (answer shuffleArray shuffleArray typed s)"

text \<open>The session is complete when there is no current card.\<close>

definition write_complete :: "write_state \<Rightarrow> bool" where
  "write_complete s \<longleftrightarrow> currentCard s = None"


section \<open>Learn mode: the three-pool scheduler\<close>

record learn_state =
  unseen :: "flashcard list"
  learning :: "flashcard list"
  known :: "flashcard list"
  currentCard_learn :: "flashcard option"
  selectedAnswer :: "string option"
  isPostAnswer :: bool

definition startNewSession :: "(flashcard list \<Rightarrow> flashcard list) \<Rightarrow> flashcard list \<Rightarrow> learn_state" where
  "startNewSession shuffleArray cs =
     (let shuffled = shuffleArray cs
      in \<lparr>unseen = shuffled, learning = [], known = [],
          currentCard_learn = first_or_null shuffled, selectedAnswer = None,
          isPostAnswer = False\<rparr>)"

definition handleAnswer :: "string \<Rightarrow> learn_state \<Rightarrow> learn_state" where
  "handleAnswer chosen s =
     (if isPostAnswer s then s else s\<lparr>selectedAnswer := Some chosen, isPostAnswer := True\<rparr>)"

text \<open>
  \<^verbatim>\<open>handleNextStep\<close> reads \<^verbatim>\<open>unseen\<close>, \<^verbatim>\<open>learning\<close> and \<^verbatim>\<open>currentCard\<close> of its render
  \<open>s\<close>. The updates of \<^verbatim>\<open>learning\<close> are queued in the order of the source: first the
  append of the current card when it was not known, then, when the current card was found
  in \<^verbatim>\<open>learning\<close>, the replacement by \<^verbatim>\<open>newLearning\<close>.
\<close>

definition handleNextStep :: "(flashcard list \<Rightarrow> flashcard list) \<Rightarrow> bool \<Rightarrow> learn_state \<Rightarrow> learn_state" where
  "handleNextStep shuffleArray wasKnown s =
     (case currentCard_learn s of
        None \<Rightarrow> s
      | Some cur \<Rightarrow>
          (let known_queue = (if wasKnown then [Updater (\<lambda>prev. prev @ [cur])] else []);
               learning_queue1 = (if wasKnown then [] else [Updater (\<lambda>prev. prev @ [cur])]);
               newUnseen = filter (\<lambda>c. id_card c \<noteq> id_card cur) (unseen s);
               nextQueue1 = (if length (learning s) > 0 then shuffleArray (learning s) else newUnseen);
               in_learning = list_ex (\<lambda>c. id_card c = id_card cur) (learning s);
               newLearning = filter (\<lambda>c. id_card c \<noteq> id_card cur) (learning s);
               learning_queue2 = (if in_learning then [Replace newLearning] else []);
               nextQueue =
                 (if in_learning
                  then (if length newLearning > 0 then shuffleArray newLearning else newUnseen)
                  else nextQueue1)
           in \<lparr>unseen = run_queue [Replace newUnseen] (unseen s),
               learning = run_queue (learning_queue1 @ learning_queue2) (learning s),
               known = run_queue known_queue (known s),
               currentCard_learn = first_or_null nextQueue,
               selectedAnswer = None, isPostAnswer = False\<rparr>))"

text \<open>A session as the list of the choices of the user, one for each card presented.\<close>

fun learn_steps :: "(flashcard list \<Rightarrow> flashcard list) \<Rightarrow> bool list \<Rightarrow> learn_state \<Rightarrow> learn_state" where
  "learn_steps shuffleArray [] s = s"
| "learn_steps shuffleArray (wasKnown # rest) s =
     learn_steps shuffleArray rest (handleNextStep shuffleArray wasKnown s)"

text \<open>The results screen is rendered when there is no current card.\<close>

definition learn_complete :: "learn_state \<Rightarrow> bool" where
  "learn_complete s \<longleftrightarrow> currentCard_learn s = None"

text \<open>The number of pools that hold a card, each occurrence counted.\<close>

definition occurrences :: "learn_state \<Rightarrow> flashcard \<Rightarrow> nat" where
  "occurrences s c =
     length (filter (\<lambda>x. id_card x = id_card c) (unseen s @ learning s @ known s))"


section \<open>Test mode: generateQuestions\<close>

datatype question_type = mc | written

record question =
  id_question :: string
  type_question :: question_type
  card_question :: flashcard
  options :: "string list option"

text \<open>
  Every question draws its own shuffles: \<open>shuffle_others index\<close> and
  \<open>shuffle_options index\<close> are the draws for the card at position \<open>index\<close>.
\<close>

definition build_question ::
  "(nat \<Rightarrow> flashcard list \<Rightarrow> flashcard list) \<Rightarrow> (nat \<Rightarrow> string list \<Rightarrow> string list) \<Rightarrow>
   flashcard list \<Rightarrow> nat \<times> flashcard \<Rightarrow> question" where
  "build_question shuffle_others shuffle_options cs p =
     (case p of (index, c) \<Rightarrow>
        if index < length cs div 2
        then (let otherCards = filter (\<lambda>x. id_card x \<noteq> id_card c) cs;
                  wrongOptions = map term_card (take 3 (shuffle_others index otherCards))
              in \<lparr>id_question = id_card c, type_question = mc, card_question = c,
                  options = Some (shuffle_options index (term_card c # wrongOptions))\<rparr>)
        else \<lparr>id_question = id_card c, type_question = written, card_question = c, options = None\<rparr>)"

definition generateQuestions ::
  "(flashcard list \<Rightarrow> flashcard list) \<Rightarrow> (nat \<Rightarrow> flashcard list \<Rightarrow> flashcard list) \<Rightarrow>
   (nat \<Rightarrow> string list \<Rightarrow> string list) \<Rightarrow> (question list \<Rightarrow> question list) \<Rightarrow>
   flashcard list \<Rightarrow> question list" where
  "generateQuestions shuffle_cards shuffle_others shuffle_options shuffle_questions cs =
     (let shuffledCards = shuffle_cards cs;
          newQuestions = map (build_question shuffle_others shuffle_options cs)
                             (enumerate 0 shuffledCards)
      in shuffle_questions newQuestions)"


section \<open>Match mode\<close>

datatype item_type = term_item | definition_item

record match_item =
  id_item :: string
  type_item :: item_type
  content :: string
  cardId :: string

record match_state =
  gridItems :: "match_item list"
  selectedItem :: "match_item option"
  matchedIds :: "string list"
  incorrectSelection :: "string option"
  startTime :: "nat option"
  endTime :: "nat option"
  bestTime :: "int option"
  isNewRecord :: bool

text \<open>A time stamp is truthy when it is set and not 0.\<close>

definition truthy :: "nat option \<Rightarrow> bool" where
  "truthy t = (case t of None \<Rightarrow> False | Some n \<Rightarrow> n \<noteq> 0)"

definition handleItemClick :: "nat \<Rightarrow> match_item \<Rightarrow> match_state \<Rightarrow> match_state" where
  "handleItemClick now item s =
     (if truthy (endTime s) \<or> cardId item \<in> set (matchedIds s) then s
      else
        (let s1 = (if \<not> truthy (startTime s) then s\<lparr>startTime := Some now\<rparr> else s)
         in case selectedItem s of
              None \<Rightarrow> s1\<lparr>selectedItem := Some item\<rparr>
            | Some sel \<Rightarrow>
                if cardId sel = cardId item \<and> type_item sel \<noteq> type_item item
                then s1\<lparr>matchedIds := run_queue [Updater (\<lambda>prev. prev @ [cardId item])] (matchedIds s),
                        selectedItem := None\<rparr>
                else s1\<lparr>incorrectSelection := Some (id_item item)\<rparr>))"

text \<open>
  The state at mount, and \<^verbatim>\<open>setupGame\<close>: at most \<^verbatim>\<open>PAIR_COUNT\<close> = 6 cards of the
  shuffled snapshot, a term tile and a definition tile for each, shuffled. The best time
  kept in the local storage of the browser is outside the model: the state starts without
  one, and the write to the storage in the completion effect is left out.
\<close>

definition match_mount :: match_state where
  "match_mount =
     \<lparr>gridItems = [], selectedItem = None, matchedIds = [], incorrectSelection = None,
      startTime = None, endTime = None, bestTime = None, isNewRecord = False\<rparr>"

definition PAIR_COUNT :: nat where
  "PAIR_COUNT = 6"

definition tiles_of :: "flashcard \<Rightarrow> match_item list" where
  "tiles_of c =
     [\<lparr>id_item = id_card c @ ''-term'', type_item = term_item, content = term_card c,
       cardId = id_card c\<rparr>,
      \<lparr>id_item = id_card c @ ''-def'', type_item = definition_item,
       content = definition_card c, cardId = id_card c\<rparr>]"

definition setupGame ::
  "(flashcard list \<Rightarrow> flashcard list) \<Rightarrow> (match_item list \<Rightarrow> match_item list) \<Rightarrow>
   flashcard list \<Rightarrow> match_state \<Rightarrow> match_state" where
  "setupGame shuffle_cards shuffle_items cs s =
     (let gameCards = take (min PAIR_COUNT (length cs)) (shuffle_cards cs);
          items = concat (map tiles_of gameCards)
      in s\<lparr>gridItems := shuffle_items items, selectedItem := None, matchedIds := [],
           startTime := None, endTime := None, isNewRecord := False\<rparr>)"

text \<open>The timer of an incorrect pair, 500 ms later.\<close>

definition clear_incorrect :: "match_state \<Rightarrow> match_state" where
  "clear_incorrect s = s\<lparr>incorrectSelection := None, selectedItem := None\<rparr>"

text \<open>
  The condition of the completion effect,
  \<^verbatim>\<open>gridItems.length > 0 && matchedIds.length > 0 && matchedIds.length === gridItems.length / 2\<close>,
  with the division that of numbers.
\<close>

definition completion_due :: "match_state \<Rightarrow> bool" where
  "completion_due s \<longleftrightarrow>
     length (gridItems s) > 0 \<and> length (matchedIds s) > 0 \<and>
     real (length (matchedIds s)) = real (length (gridItems s)) / 2"

definition completion_effect :: "nat \<Rightarrow> match_state \<Rightarrow> match_state" where
  "completion_effect finalTime s =
     (if completion_due s
      then (let s1 = s\<lparr>endTime := Some finalTime\<rparr>
            in case startTime s of
                 None \<Rightarrow> s1
               | Some start \<Rightarrow>
                   if start = 0 then s1
                   else (let duration = int finalTime - int start
                         in case bestTime s of
                              None \<Rightarrow> s1\<lparr>bestTime := Some duration, isNewRecord := True\<rparr>
                            | Some best \<Rightarrow>
                                if duration < best
                                then s1\<lparr>bestTime := Some duration, isNewRecord := True\<rparr>
                                else s1))
      else s)"


section \<open>App: importing files and starring cards\<close>

text \<open>
  A selected file has a name and a content; \<open>parsed\<close> is the value of
  \<^verbatim>\<open>JSON.parse(content)\<close> when it has a topic and an array of cards, \<open>None\<close> when the
  parse throws or \<^verbatim>\<open>cards\<close> is not an array. The topic must still be truthy (not empty).
\<close>

record selected_file =
  name_file :: string
  parsed :: "study_set option"

definition endsWith :: "string \<Rightarrow> string \<Rightarrow> bool" where
  "endsWith s suffix \<longleftrightarrow>
     length suffix \<le> length s \<and> drop (length s - length suffix) s = suffix"

fun load_files :: "selected_file list \<Rightarrow> study_set list \<Rightarrow> study_set list" where
  "load_files [] loadedSets = loadedSets"
| "load_files (f # fs) loadedSets =
     load_files fs
       (if endsWith (name_file f) ''.json''
        then (case parsed f of
                None \<Rightarrow> loadedSets
              | Some st \<Rightarrow> if topic st \<noteq> [] then loadedSets @ [st] else loadedSets)
        else loadedSets)"

definition handleFilesSelected :: "selected_file list \<Rightarrow> study_set list \<Rightarrow> study_set list" where
  "handleFilesSelected files allSets =
     (let loadedSets = load_files files [];
          newSets = filter (\<lambda>ls. \<not> list_ex (\<lambda>as. topic as = topic ls) allSets) loadedSets
      in run_queue [Updater (\<lambda>prev. prev @ newSets)] allSets)"

text \<open>\<^verbatim>\<open>!card.isStarred\<close>: an absent flag counts as false.\<close>

definition not_flag :: "bool option \<Rightarrow> bool" where
  "not_flag v = (case v of None \<Rightarrow> True | Some b \<Rightarrow> \<not> b)"

definition updateSet :: "string \<Rightarrow> study_set option \<Rightarrow> study_set option" where
  "updateSet cardId_arg st =
     (case st of
        None \<Rightarrow> None
      | Some s \<Rightarrow>
          (let updatedCards =
                 map (\<lambda>c. if id_card c = cardId_arg then c\<lparr>isStarred := Some (not_flag (isStarred c))\<rparr> else c)
                     (cards s)
           in Some (s\<lparr>cards := updatedCards\<rparr>)))"

record app_state =
  allSets :: "study_set list"
  activeSet :: "study_set option"

definition handleToggleStar :: "string \<Rightarrow> app_state \<Rightarrow> app_state" where
  "handleToggleStar cardId_arg s =
     \<lparr>allSets =
        run_queue
          [Updater (\<lambda>prevSets.
             map (\<lambda>x. if Some (topic x) = map_option topic (activeSet s)
                      then (case updateSet cardId_arg (Some x) of Some y \<Rightarrow> y | None \<Rightarrow> x)
                      else x) prevSets)]
          (allSets s),
      activeSet = run_queue [Updater (\<lambda>prevSet. updateSet cardId_arg prevSet)] (activeSet s)\<rparr>"


section \<open>Invariants of the schedulers\<close>

text \<open>
  What every step of Learn mode keeps: no identifier occurs twice in the three pools
  together, so no card is in two pools and \<^verbatim>\<open>learning\<close> holds no card of
  \<^verbatim>\<open>known\<close>; and the current card is in \<^verbatim>\<open>unseen\<close> or in \<^verbatim>\<open>learning\<close>.
\<close>

definition pools_ok :: "learn_state \<Rightarrow> bool" where
  "pools_ok s \<longleftrightarrow>
     distinct (map id_card (unseen s @ learning s @ known s)) \<and>
     (\<forall>c. currentCard_learn s = Some c \<longrightarrow> c \<in> set (unseen s) \<union> set (learning s))"


section \<open>Example data\<close>

definition card_photosynthesis :: flashcard where
  "card_photosynthesis =
     \<lparr>id_card = ''1'', term_card = ''Photosynthesis'', definition_card = ''how plants eat'',
      isStarred = Some False\<rparr>"

definition state_photosynthesis :: write_state where
  "state_photosynthesis =
     \<lparr>remainingCards = [card_photosynthesis], incorrectlyAnswered = [], correctlyAnswered = [],
      currentCard = Some card_photosynthesis, inputValue = '' photosynthesys'',
      answerState = unanswered\<rparr>"

definition card_A :: flashcard where
  "card_A =
     \<lparr>id_card = ''A'', term_card = ''alpha'', definition_card = ''first letter'',
      isStarred = Some False\<rparr>"

definition card_B :: flashcard where
  "card_B =
     \<lparr>id_card = ''B'', term_card = ''beta'', definition_card = ''second letter'',
      isStarred = Some False\<rparr>"

definition card_C :: flashcard where
  "card_C =
     \<lparr>id_card = ''C'', term_card = ''gamma'', definition_card = ''third letter'',
      isStarred = Some False\<rparr>"

text \<open>Two shuffles: one that leaves the order, one that swaps the last two of three.\<close>

definition keep_order :: "'a list \<Rightarrow> 'a list" where
  "keep_order xs = xs"

definition last_two_swapped :: "'a list \<Rightarrow> 'a list" where
  "last_two_swapped xs = (case xs of [a, b, c] \<Rightarrow> [a, c, b] | _ \<Rightarrow> xs)"

text \<open>Two files with the same topic, and two cards with the same term.\<close>

definition set_biology :: study_set where
  "set_biology = \<lparr>topic = ''Biology'', cards = [card_A]\<rparr>"

definition set_biology_other :: study_set where
  "set_biology_other = \<lparr>topic = ''Biology'', cards = [card_B, card_C]\<rparr>"

definition file_one :: selected_file where
  "file_one = \<lparr>name_file = ''one.json'', parsed = Some set_biology\<rparr>"

definition file_two :: selected_file where
  "file_two = \<lparr>name_file = ''two.json'', parsed = Some set_biology_other\<rparr>"

definition card_bank_river :: flashcard where
  "card_bank_river =
     \<lparr>id_card = ''1'', term_card = ''bank'', definition_card = ''side of a river'',
      isStarred = Some False\<rparr>"

definition card_bank_money :: flashcard where
  "card_bank_money =
     \<lparr>id_card = ''2'', term_card = ''bank'', definition_card = ''keeps money'',
      isStarred = Some False\<rparr>"

text \<open>An imported card without the star property, and the app with its set active.\<close>

definition card_imported :: flashcard where
  "card_imported =
     \<lparr>id_card = ''A'', term_card = ''alpha'', definition_card = ''first letter'',
      isStarred = None\<rparr>"

definition app_imported :: app_state where
  "app_imported =
     \<lparr>allSets = [\<lparr>topic = ''Greek'', cards = [card_imported, card_B]\<rparr>],
      activeSet = Some \<lparr>topic = ''Greek'', cards = [card_imported, card_B]\<rparr>\<rparr>"

definition app_created :: app_state where
  "app_created =
     \<lparr>allSets = [\<lparr>topic = ''Greek'', cards = [card_A, card_B]\<rparr>],
      activeSet = Some \<lparr>topic = ''Greek'', cards = [card_A, card_B]\<rparr>\<rparr>"

text \<open>Tiles of the cards A and B, and a game of these two cards with the term of A selected.\<close>

definition tile_A_term :: match_item where
  "tile_A_term = \<lparr>id_item = ''A-term'', type_item = term_item, content = ''alpha'', cardId = ''A''\<rparr>"

definition tile_A_def :: match_item where
  "tile_A_def =
     \<lparr>id_item = ''A-def'', type_item = definition_item, content = ''first letter'', cardId = ''A''\<rparr>"

definition tile_B_def :: match_item where
  "tile_B_def =
     \<lparr>id_item = ''B-def'', type_item = definition_item, content = ''second letter'', cardId = ''B''\<rparr>"

definition tile_B_term :: match_item where
  "tile_B_term = \<lparr>id_item = ''B-term'', type_item = term_item, content = ''beta'', cardId = ''B''\<rparr>"

definition game_A_selected :: match_state where
  "game_A_selected =
     handleItemClick 1000 tile_A_term (setupGame keep_order keep_order [card_A, card_B] match_mount)"

text \<open>The same game with A matched and the term of B selected, and the empty game.\<close>

definition game_B_selected :: match_state where
  "game_B_selected =
     handleItemClick 3000 tile_B_term (handleItemClick 2000 tile_A_def game_A_selected)"

definition game_empty :: match_state where
  "game_empty = setupGame keep_order keep_order [] match_mount"


section \<open>The edit distance is computed by the recursion\<close>

lemma lev_Nil2 [simp]: "lev xs [] = length xs"
  by (cases xs) simp_all

lemma lev_same [simp]: "lev xs xs = 0"
  by (induction xs) simp_all

lemma edits_0 [simp]: "edits 0 a b \<longleftrightarrow> a = b"
  by (simp add: edits_def)

lemma edits_Suc_right: "edits n a b \<Longrightarrow> edit1 b c \<Longrightarrow> edits (Suc n) a c"
  by (auto simp: edits_def)

lemma edits_Suc_left: "edit1 a b \<Longrightarrow> edits n b c \<Longrightarrow> edits (Suc n) a c"
  unfolding edits_def by (rule relpow_Suc_I2) auto

lemma edits_SucE: "edits (Suc n) a c \<Longrightarrow> (\<And>b. edits n a b \<Longrightarrow> edit1 b c \<Longrightarrow> P) \<Longrightarrow> P"
  by (auto simp: edits_def)

lemma edit1_Cons: "edit1 xs ys \<Longrightarrow> edit1 (x # xs) (x # ys)"
proof (induction rule: edit1.induct)
  case (insertion xs ys c)
  show ?case using edit1.insertion [of "x # xs" ys c] by simp
next
  case (deletion xs c ys)
  show ?case using edit1.deletion [of "x # xs" c ys] by simp
next
  case (substitution c d xs ys)
  then show ?case using edit1.substitution [of c d "x # xs" ys] by simp
qed

lemma edits_Cons: "edits n xs ys \<Longrightarrow> edits n (x # xs) (x # ys)"
proof (induction n arbitrary: ys)
  case 0
  then show ?case by simp
next
  case (Suc n)
  from Suc.prems obtain zs where "edits n xs zs" "edit1 zs ys"
    by (rule edits_SucE)
  then show ?case
    using edits_Suc_right [OF Suc.IH edit1_Cons] by simp
qed

lemma edit1_front_ins: "edit1 ys (c # ys)"
  using edit1.insertion [of "[]" ys c] by simp

lemma edit1_front_del: "edit1 (c # ys) ys"
  using edit1.deletion [of "[]" c ys] by simp

lemma edit1_front_sub: "c \<noteq> d \<Longrightarrow> edit1 (c # ys) (d # ys)"
  using edit1.substitution [of c d "[]" ys] by simp

lemma edits_from_Nil: "edits (length ys) [] ys"
proof (induction ys)
  case Nil
  show ?case by simp
next
  case (Cons y ys)
  show ?case
    using edits_Suc_right [OF Cons.IH edit1_front_ins [of ys y]] by simp
qed

lemma edits_to_Nil: "edits (length xs) xs []"
proof (induction xs)
  case Nil
  show ?case by simp
next
  case (Cons x xs)
  show ?case
    using edits_Suc_left [OF edit1_front_del [of x xs] Cons.IH] by simp
qed

lemma edits_lev: "edits (lev a b) a b"
proof (induction a b rule: lev.induct)
  case (1 ys)
  show ?case by (simp add: edits_from_Nil)
next
  case (2 x xs)
  show ?case using edits_to_Nil [of "x # xs"] by simp
next
  case (3 x xs y ys)
  let ?d = "lev xs (y # ys) + 1" and ?i = "lev (x # xs) ys + 1"
    and ?s = "lev xs ys + (if x = y then 0 else 1)"
  have d: "edits ?d (x # xs) (y # ys)"
    using edits_Suc_left [OF edit1_front_del "3.IH"(1)] by simp
  have i: "edits ?i (x # xs) (y # ys)"
    using edits_Suc_right [OF "3.IH"(2) edit1_front_ins] by simp
  have s: "edits ?s (x # xs) (y # ys)"
  proof (cases "x = y")
    case True
    then show ?thesis using edits_Cons [OF "3.IH"(3), of x] by simp
  next
    case False
    then show ?thesis
      using edits_Suc_right [OF edits_Cons [OF "3.IH"(3), of x] edit1_front_sub [of x y ys]]
      by simp
  qed
  have "lev (x # xs) (y # ys) = ?d \<or> lev (x # xs) (y # ys) = ?i \<or> lev (x # xs) (y # ys) = ?s"
    by (simp add: min_def)
  then show ?case using d i s by (elim disjE) simp_all
qed


lemma lev_Cons_le: "lev a (c # ys) \<le> lev a ys + 1"
  by (cases a) (simp_all add: min_le_iff_disj)

lemma lev_Cons_le': "lev (x # xs) ys \<le> lev xs ys + 1"
  by (cases ys) (simp_all add: min_le_iff_disj)

lemma lev_Cons_Cons_bound:
  assumes "z \<le> lev xs (y # ys) + 2" and "z \<le> lev (x # xs) ys + 2"
    and "z \<le> lev xs ys + (if x = y then 0 else 1) + 1"
  shows "z \<le> lev (x # xs) (y # ys) + 1"
  using assms by (simp add: min_def)

lemma lev_Cons_Cons_le:
  "lev (x # xs) (y # ys) \<le> lev xs (y # ys) + 1"
  "lev (x # xs) (y # ys) \<le> lev (x # xs) ys + 1"
  "lev (x # xs) (y # ys) \<le> lev xs ys + (if x = y then 0 else 1)"
  by (simp_all add: min_le_iff_disj)

lemma lev_uncons_le: "lev a ys \<le> lev a (c # ys) + 1"
proof (induction a)
  case Nil
  show ?case by simp
next
  case (Cons x xs)
  have a: "lev (x # xs) ys \<le> lev xs ys + 1" by (rule lev_Cons_le')
  show ?case
  proof (rule lev_Cons_Cons_bound)
    show "lev (x # xs) ys \<le> lev xs (c # ys) + 2" using a Cons.IH by linarith
    show "lev (x # xs) ys \<le> lev (x # xs) ys + 2" by linarith
    show "lev (x # xs) ys \<le> lev xs ys + (if x = c then 0 else 1) + 1" using a by linarith
  qed
qed

lemma lev_subst_le: "lev a (d # ys) \<le> lev a (c # ys) + 1"
proof (induction a)
  case Nil
  show ?case by simp
next
  case (Cons x xs)
  note le = lev_Cons_Cons_le [of x xs d ys]
  show ?case
  proof (rule lev_Cons_Cons_bound)
    show "lev (x # xs) (d # ys) \<le> lev xs (c # ys) + 2" using le(1) Cons.IH by linarith
    show "lev (x # xs) (d # ys) \<le> lev (x # xs) ys + 2" using le(2) by linarith
    have "(if x = d then 0 else 1) \<le> (1::nat)" by simp
    then show "lev (x # xs) (d # ys) \<le> lev xs ys + (if x = c then 0 else 1) + 1"
      using le(3) by linarith
  qed
qed

lemma lev_context_le:
  assumes "\<And>a. lev a ys' \<le> lev a ys + 1"
  shows "lev a (y # ys') \<le> lev a (y # ys) + 1"
proof (induction a)
  case Nil
  show ?case using assms [of "[]"] by simp
next
  case (Cons x xs)
  note le = lev_Cons_Cons_le [of x xs y ys']
  show ?case
  proof (rule lev_Cons_Cons_bound)
    show "lev (x # xs) (y # ys') \<le> lev xs (y # ys) + 2" using le(1) Cons.IH by linarith
    show "lev (x # xs) (y # ys') \<le> lev (x # xs) ys + 2"
      using le(2) assms [of "x # xs"] by linarith
    show "lev (x # xs) (y # ys') \<le> lev xs ys + (if x = y then 0 else 1) + 1"
      using le(3) assms [of xs] by linarith
  qed
qed

lemma lev_prefix_le:
  assumes "\<And>a. lev a ys' \<le> lev a ys + 1"
  shows "lev a (xs @ ys') \<le> lev a (xs @ ys) + 1"
proof (induction xs arbitrary: a)
  case Nil
  show ?case using assms by simp
next
  case (Cons x xs)
  show ?case using lev_context_le [of "xs @ ys'" "xs @ ys" a x] Cons.IH by simp
qed

lemma lev_edit1_le: "edit1 b c \<Longrightarrow> lev a c \<le> lev a b + 1"
proof (induction rule: edit1.induct)
  case (insertion xs ys c)
  show ?case by (rule lev_prefix_le) (rule lev_Cons_le)
next
  case (deletion xs c ys)
  show ?case by (rule lev_prefix_le) (rule lev_uncons_le)
next
  case (substitution c d xs ys)
  show ?case by (rule lev_prefix_le) (rule lev_subst_le)
qed

lemma lev_le_edits: "edits n a b \<Longrightarrow> lev a b \<le> n"
proof (induction n arbitrary: b)
  case 0
  then show ?case by simp
next
  case (Suc n)
  from Suc.prems obtain c where c: "edits n a c" "edit1 c b"
    by (rule edits_SucE)
  from Suc.IH [OF c(1)] lev_edit1_le [OF c(2), of a] show ?case by linarith
qed

lemma edit_distance_lev: "edit_distance a b = lev a b"
  unfolding edit_distance_def
  by (rule Least_equality) (auto intro: edits_lev lev_le_edits)

lemma edit1_rev: "edit1 a b \<Longrightarrow> edit1 (rev a) (rev b)"
proof (induction rule: edit1.induct)
  case (insertion xs ys c)
  show ?case using edit1.insertion [of "rev ys" "rev xs" c] by simp
next
  case (deletion xs c ys)
  show ?case using edit1.deletion [of "rev ys" c "rev xs"] by simp
next
  case (substitution c d xs ys)
  then show ?case using edit1.substitution [of c d "rev ys" "rev xs"] by simp
qed

lemma edits_rev: "edits n a b \<Longrightarrow> edits n (rev a) (rev b)"
proof (induction n arbitrary: b)
  case 0
  then show ?case by simp
next
  case (Suc n)
  from Suc.prems obtain c where "edits n a c" "edit1 c b"
    by (rule edits_SucE)
  then show ?case
    using edits_Suc_right [OF Suc.IH edit1_rev] by simp
qed

lemma lev_rev: "lev (rev a) (rev b) = lev a b"
proof (rule antisym)
  show "lev (rev a) (rev b) \<le> lev a b"
    using lev_le_edits [OF edits_rev [OF edits_lev [of a b]]] .
  show "lev a b \<le> lev (rev a) (rev b)"
    using lev_le_edits [OF edits_rev [OF edits_lev [of "rev a" "rev b"]]] by simp
qed


section \<open>The table computes the recursion\<close>

lemma fold_upt_invariant:
  assumes "P lo m" and "lo \<le> hi"
    and "\<And>k m. lo \<le> k \<Longrightarrow> k < hi \<Longrightarrow> P k m \<Longrightarrow> P (Suc k) (f k m)"
  shows "P hi (fold f [lo..<hi] m)"
  using assms(2,3)
proof (induction hi)
  case 0
  then show ?case using assms(1) by simp
next
  case (Suc hi)
  show ?case
  proof (cases "lo = Suc hi")
    case True
    then show ?thesis using assms(1) by simp
  next
    case False
    with Suc.prems(1) have le: "lo \<le> hi" by simp
    have "P hi (fold f [lo..<hi] m)"
      by (rule Suc.IH [OF le]) (simp add: Suc.prems(2))
    then have "P (Suc hi) (f hi (fold f [lo..<hi] m))"
      by (rule Suc.prems(2) [OF le lessI])
    then show ?thesis using le by simp
  qed
qed

lemma filledD:
  "filled a b m J I \<Longrightarrow> j \<le> length b \<Longrightarrow> i \<le> length a \<Longrightarrow>
   j = 0 \<or> i = 0 \<or> j < J \<or> (j = J \<and> i < I) \<Longrightarrow> m ! j ! i = Some (prefix_distance a b i j)"
  unfolding filled_def by blast

lemma filled_dims: "filled a b m J I \<Longrightarrow> dims a b m"
  by (simp add: filled_def)

lemma put_row:
  "j' < length m \<Longrightarrow> put m j i v ! j' = (if j' = j then (m ! j)[i := Some v] else m ! j')"
  by (simp add: put_def nth_list_update)

lemma dims_put: "dims a b m \<Longrightarrow> dims a b (put m j i v)"
  unfolding dims_def
proof (intro conjI allI impI)
  assume d: "length m = length b + 1 \<and> (\<forall>j\<le>length b. length (m ! j) = length a + 1)"
  show "length (put m j i v) = length b + 1" using d by (simp add: put_def)
  fix j' assume "j' \<le> length b"
  then show "length (put m j i v ! j') = length a + 1"
    using d by (simp add: put_row)
qed

lemma nth_put:
  assumes "dims a b m" "j \<le> length b" "i \<le> length a" "j' \<le> length b"
  shows "put m j i v ! j' ! i' = (if j' = j \<and> i' = i then Some v else m ! j' ! i')"
proof -
  from assms have "j' < length m" "i < length (m ! j)" by (simp_all add: dims_def)
  then show ?thesis by (simp add: put_row nth_list_update)
qed

lemma dims_new_matrix: "dims a b (new_matrix a b)"
  unfolding dims_def new_matrix_def
  by (simp add: nth_replicate del: replicate.simps)

lemma prefix_distance_0 [simp]:
  "i \<le> length a \<Longrightarrow> prefix_distance a b i 0 = i" "j \<le> length b \<Longrightarrow> prefix_distance a b 0 j = j"
  by (simp_all add: prefix_distance_def)

lemma prefix_distance_Suc:
  assumes "i < length a" "j < length b"
  shows "prefix_distance a b (Suc i) (Suc j) =
     min (min (prefix_distance a b i (Suc j) + 1) (prefix_distance a b (Suc i) j + 1))
         (prefix_distance a b i j + (if a ! i = b ! j then 0 else 1))"
  using assms by (simp add: prefix_distance_def take_Suc_conv_app_nth)

lemma first_row_inv:
  "dims a b m \<Longrightarrow>
   dims a b (first_row a m) \<and> (\<forall>i \<le> length a. first_row a m ! 0 ! i = Some i)"
proof -
  assume d: "dims a b m"
  let ?P = "\<lambda>k m. dims a b m \<and> (\<forall>i < k. m ! 0 ! i = Some i)"
  have "?P (length a + 1) (fold (\<lambda>i m. put m 0 i i) [0..<length a + 1] m)"
  proof (rule fold_upt_invariant [where P = ?P])
    show "?P 0 m" using d by simp
    show "0 \<le> length a + 1" by simp
    fix k m assume "k < length a + 1" "?P k m"
    then show "?P (Suc k) (put m 0 k k)"
      by (auto simp: dims_put nth_put less_Suc_eq)
  qed
  then show ?thesis by (simp add: first_row_def less_Suc_eq_le)
qed

lemma first_column_inv:
  assumes "dims a b m" "\<forall>i \<le> length a. m ! 0 ! i = Some i"
  shows "filled a b (first_column b m) 1 1"
proof -
  let ?P = "\<lambda>k m. dims a b m \<and> (\<forall>i \<le> length a. m ! 0 ! i = Some i) \<and> (\<forall>j < k. m ! j ! 0 = Some j)"
  have "?P (length b + 1) (fold (\<lambda>j m. put m j 0 j) [0..<length b + 1] m)"
  proof (rule fold_upt_invariant [where P = ?P])
    show "?P 0 m" using assms by simp
    show "0 \<le> length b + 1" by simp
    fix k m assume "k < length b + 1" "?P k m"
    then show "?P (Suc k) (put m k 0 k)"
      by (auto simp: dims_put nth_put less_Suc_eq)
  qed
  then show ?thesis
    by (auto simp: first_column_def filled_def less_Suc_eq_le)
qed

lemma filled_cell:
  assumes f: "filled a b m J I" and J: "1 \<le> J" "J \<le> length b" and I: "1 \<le> I" "I \<le> length a"
  shows "filled a b (cell a b J I m) J (Suc I)"
proof -
  from J I obtain j i where ji: "J = Suc j" "I = Suc i" "j < length b" "i < length a"
    by (cases J; cases I) auto
  from f have d: "dims a b m" by (rule filled_dims)
  have r1: "m ! Suc j ! i = Some (prefix_distance a b i (Suc j))"
    using filledD [OF f, of J "I - 1"] ji by simp
  have r2: "m ! j ! Suc i = Some (prefix_distance a b (Suc i) j)"
    using filledD [OF f, of "J - 1" I] ji by simp
  have r3: "m ! j ! i = Some (prefix_distance a b i j)"
    using filledD [OF f, of "J - 1" "I - 1"] ji by simp
  have c: "cell a b J I m = put m J I (prefix_distance a b I J)"
    using ji by (simp add: cell_def r1 r2 r3 num_def prefix_distance_Suc Let_def)
  show ?thesis
    unfolding c filled_def
  proof (intro conjI allI impI)
    show "dims a b (put m J I (prefix_distance a b I J))" using d by (rule dims_put)
    fix j' i' assume h: "j' \<le> length b" "i' \<le> length a"
      "j' = 0 \<or> i' = 0 \<or> j' < J \<or> j' = J \<and> i' < Suc I"
    show "put m J I (prefix_distance a b I J) ! j' ! i' = Some (prefix_distance a b i' j')"
    proof (cases "j' = J \<and> i' = I")
      case True
      then show ?thesis using d J I by (simp add: nth_put)
    next
      case False
      with h have "j' = 0 \<or> i' = 0 \<or> j' < J \<or> j' = J \<and> i' < I" by auto
      with f h have "m ! j' ! i' = Some (prefix_distance a b i' j')" by (intro filledD)
      with False show ?thesis using d J I h by (simp add: nth_put)
    qed
  qed
qed

lemma filled_fill_row:
  assumes f: "filled a b m J 1" and J: "1 \<le> J" "J \<le> length b"
  shows "filled a b (fill_row a b J m) (Suc J) 1"
proof -
  have *: "filled a b (fold (cell a b J) [1..<length a + 1] m) J (length a + 1)"
  proof (rule fold_upt_invariant [where P = "\<lambda>k m. filled a b m J k"])
    show "filled a b m J 1" by (rule f)
    show "1 \<le> length a + 1" by simp
    fix k m assume "1 \<le> k" "k < length a + 1" "filled a b m J k"
    then show "filled a b (cell a b J k m) J (Suc k)"
      using J by (intro filled_cell) simp_all
  qed
  show ?thesis
    unfolding fill_row_def filled_def [of a b _ "Suc J" 1]
  proof (intro conjI allI impI)
    show "dims a b (fold (cell a b J) [1..<length a + 1] m)" using * by (rule filled_dims)
    fix j i assume "j \<le> length b" "i \<le> length a" "j = 0 \<or> i = 0 \<or> j < Suc J \<or> j = Suc J \<and> i < 1"
    then show "fold (cell a b J) [1..<length a + 1] m ! j ! i = Some (prefix_distance a b i j)"
      by (intro filledD [OF *]) auto
  qed
qed

lemma filled_fill_rows:
  assumes "filled a b m 1 1"
  shows "filled a b (fill_rows a b m) (length b + 1) 1"
  unfolding fill_rows_def
proof (rule fold_upt_invariant [where P = "\<lambda>k m. filled a b m k 1"])
  show "filled a b m 1 1" by (rule assms)
  show "1 \<le> length b + 1" by simp
  fix k m assume "1 \<le> k" "k < length b + 1" "filled a b m k 1"
  then show "filled a b (fill_row a b k m) (Suc k) 1"
    by (intro filled_fill_row) simp_all
qed

lemma filled_levenshtein_matrix: "filled a b (levenshtein_matrix a b) (length b + 1) 1"
  unfolding levenshtein_matrix_def
  using first_row_inv [OF dims_new_matrix [of a b]]
  by (intro filled_fill_rows first_column_inv) simp_all

lemma levenshtein_matrix_nth:
  "i \<le> length a \<Longrightarrow> j \<le> length b \<Longrightarrow>
   levenshtein_matrix a b ! j ! i = Some (lev (rev (take i a)) (rev (take j b)))"
  using filledD [OF filled_levenshtein_matrix [of a b], of j i]
  by (simp add: prefix_distance_def)

lemma calculateLevenshteinDistance_lev: "calculateLevenshteinDistance a b = Some (lev a b)"
  by (simp add: calculateLevenshteinDistance_def levenshtein_matrix_nth lev_rev)

lemma calculateLevenshteinDistance_edit_distance:
  "calculateLevenshteinDistance a b = Some (edit_distance a b)"
  by (simp add: calculateLevenshteinDistance_lev edit_distance_lev)


section \<open>Write mode: the grader\<close>

lemma edit_distance_least: "edits n a b \<Longrightarrow> edit_distance a b \<le> n"
  by (simp add: edit_distance_lev lev_le_edits)

lemma edits_edit_distance: "edits (edit_distance a b) a b"
  by (simp add: edit_distance_lev edits_lev)

lemma dims_levenshtein_matrix: "dims a b (levenshtein_matrix a b)"
  using filled_levenshtein_matrix by (rule filled_dims)

text \<open>
  C2: for every pair of strings, the empty ones included, calculateLevenshteinDistance
  returns the edit distance, the least number of single-character insertions, deletions
  and substitutions that transform the first string into the second; the table has
  (length of b) + 1 rows of (length of a) + 1 cells, whatever the lengths.
\<close>

theorem calculateLevenshteinDistance_correct:
  "calculateLevenshteinDistance a b = Some (edit_distance a b) \<and>
   edits (edit_distance a b) a b \<and>
   (\<forall>n. edits n a b \<longrightarrow> edit_distance a b \<le> n) \<and>
   dims a b (levenshtein_matrix a b)"
  by (simp add: calculateLevenshteinDistance_edit_distance edits_edit_distance
      edit_distance_least dims_levenshtein_matrix)

theorem calculateLevenshteinDistance_correct_witness:
  "edit_distance ''kitten'' ''sitting'' = 3 \<and> edits 3 ''kitten'' ''sitting'' \<and>
   edit_distance ''kitten'' ''sitting'' \<le> 3 \<and>
   calculateLevenshteinDistance ''kitten'' ''sitting'' = Some 3"
proof -
  have v: "calculateLevenshteinDistance ''kitten'' ''sitting'' = Some 3"
    by code_simp
  note t = calculateLevenshteinDistance_correct [of "''kitten''" "''sitting''"]
  from t v have d: "edit_distance ''kitten'' ''sitting'' = 3" by simp
  from t d have e: "edits 3 ''kitten'' ''sitting''" by simp
  from t e have "edit_distance ''kitten'' ''sitting'' \<le> 3" by blast
  with d e v show ?thesis by simp
qed

text \<open>
  C1: the grading of Write mode accepts an answer if and only if, both strings trimmed and
  lower-cased, they are equal or their edit distance is at most the threshold, which is 2
  when the normalised correct term has more than 7 characters and 1 otherwise. The grading
  is a total function to the booleans, and a submission that the handler accepts sets the
  answer state to correct or incorrect accordingly.
\<close>

theorem isCorrect_iff:
  "(isCorrect typed t \<longleftrightarrow>
      (let userAnswer = toLowerCase (trim typed); correctAnswer = toLowerCase (trim t)
       in userAnswer = correctAnswer \<or>
          edit_distance userAnswer correctAnswer \<le> (if length correctAnswer > 7 then 2 else 1))) \<and>
   (submit_accepted s \<and> currentCard s = Some c \<longrightarrow>
      answerState (handleAnswerSubmit s) =
        (if isCorrect (inputValue s) (term_card c) then correct else incorrect))"
proof
  show "isCorrect typed t \<longleftrightarrow>
      (let userAnswer = toLowerCase (trim typed); correctAnswer = toLowerCase (trim t)
       in userAnswer = correctAnswer \<or>
          edit_distance userAnswer correctAnswer \<le> (if length correctAnswer > 7 then 2 else 1))"
    by (simp add: isCorrect_def Let_def calculateLevenshteinDistance_edit_distance num_def)
  show "submit_accepted s \<and> currentCard s = Some c \<longrightarrow>
      answerState (handleAnswerSubmit s) =
        (if isCorrect (inputValue s) (term_card c) then correct else incorrect)"
    by (simp add: submit_accepted_def handleAnswerSubmit_def)
qed

theorem isCorrect_iff_witness:
  "isCorrect '' photosynthesys'' ''Photosynthesis'' \<and>
   ''photosynthesys'' \<noteq> ''photosynthesis'' \<and>
   edit_distance ''photosynthesys'' ''photosynthesis'' \<le> 2 \<and>
   submit_accepted state_photosynthesis \<and>
   answerState (handleAnswerSubmit state_photosynthesis) = correct"
proof -
  have a: "isCorrect '' photosynthesys'' ''Photosynthesis''" by code_simp
  have n: "toLowerCase (trim '' photosynthesys'') = ''photosynthesys''"
    "toLowerCase (trim ''Photosynthesis'') = ''photosynthesis''" by code_simp+
  have acc: "submit_accepted state_photosynthesis" by code_simp
  have cur: "currentCard state_photosynthesis = Some card_photosynthesis"
    "inputValue state_photosynthesis = '' photosynthesys''"
    "term_card card_photosynthesis = ''Photosynthesis''"
    by (simp_all add: state_photosynthesis_def card_photosynthesis_def)
  note t = isCorrect_iff [of "'' photosynthesys''" "''Photosynthesis''" state_photosynthesis
      card_photosynthesis]
  from t a n have "edit_distance ''photosynthesys'' ''photosynthesis'' \<le> 2"
    by (simp add: Let_def)
  moreover from t acc cur a have "answerState (handleAnswerSubmit state_photosynthesis) = correct"
    by simp
  ultimately show ?thesis using a acc by simp
qed

text \<open>
  C6, as the code has it: the grader rejects "recieve" for the correct term "receive" (the
  edit distance is 2, the term has 7 characters, so the threshold is 1), and it rejects
  "recieve" for the correct term "deceive" (edit distance 3, threshold 1).
\<close>

theorem isCorrect_recieve:
  "\<not> isCorrect ''recieve'' ''receive'' \<and> edit_distance ''recieve'' ''receive'' = 2 \<and>
   length (toLowerCase (trim ''receive'')) = 7 \<and>
   \<not> isCorrect ''recieve'' ''deceive'' \<and> edit_distance ''recieve'' ''deceive'' = 3"
proof -
  have "calculateLevenshteinDistance ''recieve'' ''receive'' = Some 2"
    "calculateLevenshteinDistance ''recieve'' ''deceive'' = Some 3"
    by code_simp+
  then have "edit_distance ''recieve'' ''receive'' = 2" "edit_distance ''recieve'' ''deceive'' = 3"
    by (simp_all add: calculateLevenshteinDistance_edit_distance)
  moreover have "\<not> isCorrect ''recieve'' ''receive''" "\<not> isCorrect ''recieve'' ''deceive''"
    "length (toLowerCase (trim ''receive'')) = 7"
    by code_simp+
  ultimately show ?thesis by simp
qed

text \<open>The claim of C6 as it was stated, that "recieve" is accepted for "receive", fails.\<close>

theorem isCorrect_recieve_counterexample:
  "\<not> (isCorrect ''recieve'' ''receive'' \<and> \<not> isCorrect ''recieve'' ''deceive'')"
proof -
  have "\<not> isCorrect ''recieve'' ''receive''" by code_simp
  then show ?thesis by simp
qed


section \<open>Shuffles\<close>

lemma is_shuffleD: "is_shuffle sh \<Longrightarrow> mset (sh xs) = mset xs"
  by (simp add: is_shuffle_def)

lemma is_shuffle_keep_order: "is_shuffle keep_order"
  by (simp add: is_shuffle_def keep_order_def)

lemma is_shuffle_last_two_swapped: "is_shuffle last_two_swapped"
  unfolding is_shuffle_def last_two_swapped_def
  by (intro allI) (simp split: list.split)

lemma is_shuffle_Nil: "is_shuffle sh \<Longrightarrow> sh [] = []"
  using is_shuffleD [of sh "[]"] by simp

lemma is_shuffle_set: "is_shuffle sh \<Longrightarrow> set (sh xs) = set xs"
  by (rule mset_eq_setD) (rule is_shuffleD)

lemma is_shuffle_length: "is_shuffle sh \<Longrightarrow> length (sh xs) = length xs"
  by (rule mset_eq_length) (rule is_shuffleD)



section \<open>Write mode: the two-pool scheduler\<close>

text \<open>
  With the cards in the order of presentation, a card in the middle of a round that is
  answered incorrectly comes back in the next round.
\<close>

lemma write_middle_card_reappears:
  "currentCard
     (answers keep_order [''alpha'', ''wrong'', ''gamma'']
        (write_start keep_order [card_A, card_B, card_C])) = Some card_B"
  by code_simp

text \<open>
  The last card of a round: the timer runs the \<^verbatim>\<open>nextCard\<close> of the render before the
  answer was recorded, so an incorrect answer to that card is dropped with the reset of
  \<^verbatim>\<open>incorrectlyAnswered\<close>, and the next round holds the cards missed before it only.
\<close>

lemma write_last_card_dropped:
  assumes "length (remainingCards s) \<le> 1" and "currentCard s = Some c"
    and "answerState s = unanswered" and "trim typed \<noteq> []"
    and "\<not> isCorrect typed (term_card c)"
  shows "incorrectlyAnswered (answer shuffle1 shuffle2 typed s) = [] \<and>
         remainingCards (answer shuffle1 shuffle2 typed s) = shuffle2 (incorrectlyAnswered s) \<and>
         currentCard (answer shuffle1 shuffle2 typed s) = first_or_null (shuffle1 (incorrectlyAnswered s)) \<and>
         correctlyAnswered (answer shuffle1 shuffle2 typed s) = correctlyAnswered s"
  using assms
  by (simp add: answer_def submit_accepted_def handleAnswerSubmit_def nextCard_def run_queue_def
      Let_def)

text \<open>
  C5, at the input where the code departs from it: the cards A, B, C are presented in the
  order A, C, B; A and C are answered correctly and B incorrectly. B is the card on screen
  for the third answer, that answer is graded incorrect, and the session is complete after
  it: no current card, nothing remaining and nothing to retry, and B not among the cards
  answered correctly.
\<close>

theorem write_complete_with_missed_card:
  "write_start last_two_swapped [card_A, card_B, card_C] =
     \<lparr>remainingCards = [card_A, card_C, card_B], incorrectlyAnswered = [],
      correctlyAnswered = [], currentCard = Some card_A, inputValue = [],
      answerState = unanswered\<rparr> \<and>
   currentCard (answers keep_order [''alpha'', ''gamma'']
     (write_start last_two_swapped [card_A, card_B, card_C])) = Some card_B \<and>
   \<not> isCorrect ''wrong'' (term_card card_B) \<and>
   answers keep_order [''alpha'', ''gamma'', ''wrong'']
     (write_start last_two_swapped [card_A, card_B, card_C]) =
     \<lparr>remainingCards = [], incorrectlyAnswered = [],
      correctlyAnswered = [card_A, card_C], currentCard = None, inputValue = [],
      answerState = unanswered\<rparr> \<and>
   write_complete (answers keep_order [''alpha'', ''gamma'', ''wrong'']
     (write_start last_two_swapped [card_A, card_B, card_C]))"
  by code_simp


section \<open>Learn mode: the three-pool scheduler\<close>

lemma first_or_null_in: "first_or_null xs = Some x \<Longrightarrow> x \<in> set xs"
  by (auto simp: first_or_null_def split: list.splits)

lemma first_or_null_None: "first_or_null xs = None \<longleftrightarrow> xs = []"
  by (simp add: first_or_null_def split: list.splits)

lemma distinct_map_filter_ids: "distinct (map id_card xs) \<Longrightarrow> distinct (map id_card (filter P xs))"
  by (rule distinct_map_filter)

lemma pools_ok_start:
  assumes "is_shuffle shuffleArray" and "distinct (map id_card cs)"
  shows "pools_ok (startNewSession shuffleArray cs)"
proof -
  have "mset (map id_card (shuffleArray cs)) = mset (map id_card cs)"
    using assms(1) by (simp add: is_shuffle_def)
  then have "distinct (map id_card (shuffleArray cs))"
    using assms(2) by (metis mset_eq_imp_distinct_iff)
  then show ?thesis
    by (auto simp: pools_ok_def startNewSession_def Let_def dest: first_or_null_in)
qed

lemma handleNextStep_Some:
  assumes "currentCard_learn s = Some cur"
  shows "handleNextStep shuffleArray wasKnown s =
     \<lparr>unseen = filter (\<lambda>c. id_card c \<noteq> id_card cur) (unseen s),
      learning =
        (if list_ex (\<lambda>c. id_card c = id_card cur) (learning s)
         then filter (\<lambda>c. id_card c \<noteq> id_card cur) (learning s)
         else if wasKnown then learning s else learning s @ [cur]),
      known = (if wasKnown then known s @ [cur] else known s),
      currentCard_learn =
        first_or_null
          (if list_ex (\<lambda>c. id_card c = id_card cur) (learning s)
           then (if length (filter (\<lambda>c. id_card c \<noteq> id_card cur) (learning s)) > 0
                 then shuffleArray (filter (\<lambda>c. id_card c \<noteq> id_card cur) (learning s))
                 else filter (\<lambda>c. id_card c \<noteq> id_card cur) (unseen s))
           else (if length (learning s) > 0 then shuffleArray (learning s)
                 else filter (\<lambda>c. id_card c \<noteq> id_card cur) (unseen s))),
      selectedAnswer = None, isPostAnswer = False\<rparr>"
  using assms by (simp add: handleNextStep_def Let_def run_queue_def)

lemma pools_ok_step:
  assumes sh: "is_shuffle shuffleArray" and ok: "pools_ok s"
  shows "pools_ok (handleNextStep shuffleArray wasKnown s)"
proof (cases "currentCard_learn s")
  case None
  then show ?thesis using ok by (simp add: handleNextStep_def)
next
  case (Some cur)
  define P :: "flashcard \<Rightarrow> bool" where "P = (\<lambda>c. id_card c \<noteq> id_card cur)"
  define U where "U = filter P (unseen s)"
  define L where "L = filter P (learning s)"
  define inL where "inL = list_ex (\<lambda>c. id_card c = id_card cur) (learning s)"
  define L' where "L' = (if inL then L else if wasKnown then learning s else learning s @ [cur])"
  define K' where "K' = (if wasKnown then known s @ [cur] else known s)"
  define Q where "Q = (if inL then (if length L > 0 then shuffleArray L else U)
                       else (if length (learning s) > 0 then shuffleArray (learning s) else U))"
  have step: "handleNextStep shuffleArray wasKnown s =
      \<lparr>unseen = U, learning = L', known = K', currentCard_learn = first_or_null Q,
       selectedAnswer = None, isPostAnswer = False\<rparr>"
    unfolding U_def L'_def L_def K'_def Q_def inL_def P_def
    by (rule handleNextStep_Some [OF Some])
  from ok have d: "distinct (map id_card (unseen s @ learning s @ known s))"
    by (simp add: pools_ok_def)
  from ok Some have cur: "cur \<in> set (unseen s) \<union> set (learning s)"
    by (simp add: pools_ok_def)
  have nk: "id_card cur \<notin> id_card ` set (known s)"
  proof
    assume "id_card cur \<in> id_card ` set (known s)"
    moreover from cur have "id_card cur \<in> id_card ` set (unseen s) \<union> id_card ` set (learning s)"
      by blast
    ultimately show False using d by auto
  qed
  have K: "filter P (known s) = known s"
    unfolding P_def filter_id_conv
  proof (intro ballI notI)
    fix c assume "c \<in> set (known s)" "id_card c = id_card cur"
    then have "id_card cur \<in> id_card ` set (known s)" by (metis imageI)
    with nk show False by simp
  qed
  have notinL: "\<not> inL \<Longrightarrow> L = learning s"
    unfolding inL_def L_def P_def list_ex_iff filter_id_conv by blast
  define A where "A = U @ L @ known s"
  have all: "A = filter P (unseen s @ learning s @ known s)"
    by (simp add: A_def U_def L_def K)
  have dall: "distinct (map id_card A)"
    unfolding all using d by (rule distinct_map_filter)
  have curall: "id_card cur \<notin> set (map id_card A)"
    unfolding all by (auto simp: P_def)
  have dcur: "distinct (map id_card (A @ [cur]))"
    using dall curall by simp
  have "distinct (map id_card (U @ L' @ K'))"
  proof (cases inL)
    case True
    show ?thesis
    proof (cases wasKnown)
      case True
      with \<open>inL\<close> have "U @ L' @ K' = A @ [cur]" by (simp add: L'_def K'_def A_def)
      then show ?thesis using dcur by simp
    next
      case False
      with \<open>inL\<close> have "U @ L' @ K' = A" by (simp add: L'_def K'_def A_def)
      then show ?thesis using dall by simp
    qed
  next
    case False
    note L = notinL [OF False]
    show ?thesis
    proof (cases wasKnown)
      case True
      with False have "U @ L' @ K' = A @ [cur]" by (simp add: L'_def K'_def A_def L)
      then show ?thesis using dcur by simp
    next
      case wk: False
      with False have "mset (map id_card (U @ L' @ K')) = mset (map id_card (A @ [cur]))"
        by (simp add: L'_def K'_def A_def L)
      then show ?thesis using dcur by (metis mset_eq_imp_distinct_iff)
    qed
  qed
  moreover have "\<And>c. first_or_null Q = Some c \<Longrightarrow> c \<in> set U \<union> set L'"
  proof -
    fix c assume "first_or_null Q = Some c"
    then have c: "c \<in> set Q" by (rule first_or_null_in)
    show "c \<in> set U \<union> set L'"
    proof (cases inL)
      case True
      then have "set Q \<subseteq> set L \<union> set U"
        by (simp add: Q_def is_shuffle_set [OF sh])
      with c True show ?thesis by (auto simp: L'_def)
    next
      case False
      then have "set Q \<subseteq> set (learning s) \<union> set U"
        by (simp add: Q_def is_shuffle_set [OF sh])
      with c False show ?thesis by (auto simp: L'_def)
    qed
  qed
  ultimately show ?thesis
    unfolding step pools_ok_def by simp
qed

lemma pools_ok_steps:
  "is_shuffle shuffleArray \<Longrightarrow> pools_ok s \<Longrightarrow> pools_ok (learn_steps shuffleArray ws s)"
  by (induction ws arbitrary: s) (simp_all add: pools_ok_step)

text \<open>When both working pools are empty after a step, there is no current card.\<close>

lemma learn_empty_pools_complete:
  assumes "is_shuffle shuffleArray" and "s' = handleNextStep shuffleArray wasKnown s"
    and "currentCard_learn s \<noteq> None" and "unseen s' = []" and "learning s' = []"
  shows "learn_complete s'"
  using assms is_shuffle_Nil [OF assms(1)]
  by (auto simp: learn_complete_def handleNextStep_def Let_def run_queue_def first_or_null_def
      list_ex_iff filter_empty_conv split: if_splits list.splits)

text \<open>
  C3, at the input where the code departs from it: the cards A and B, presented in this
  order. A is marked still learning, B is marked known, and A, presented again from the
  learning pool, is marked still learning again. The replacement of \<^verbatim>\<open>learning\<close> by
  \<^verbatim>\<open>newLearning\<close> overrides the append of A: after the third step A is in none of the
  three pools and is not the current card.
\<close>

theorem learn_card_lost:
  "learn_steps keep_order [False, True] (startNewSession keep_order [card_A, card_B]) =
     \<lparr>unseen = [], learning = [card_A], known = [card_B], currentCard_learn = Some card_A,
      selectedAnswer = None, isPostAnswer = False\<rparr> \<and>
   learn_steps keep_order [False, True, False] (startNewSession keep_order [card_A, card_B]) =
     \<lparr>unseen = [], learning = [], known = [card_B], currentCard_learn = None,
      selectedAnswer = None, isPostAnswer = False\<rparr> \<and>
   occurrences
     (learn_steps keep_order [False, True, False] (startNewSession keep_order [card_A, card_B]))
     card_A = 0"
  by code_simp

text \<open>
  C4, at the input where the code departs from it: a single card A, marked still learning.
  The next card is chosen from the \<^verbatim>\<open>learning\<close> of the render, which does not hold A
  yet: the session is complete with A in the learning pool and nothing known.
\<close>

theorem learn_complete_while_learning:
  "handleNextStep keep_order False (startNewSession keep_order [card_A]) =
     \<lparr>unseen = [], learning = [card_A], known = [], currentCard_learn = None,
      selectedAnswer = None, isPostAnswer = False\<rparr> \<and>
   learn_complete (handleNextStep keep_order False (startNewSession keep_order [card_A])) \<and>
   length (known (handleNextStep keep_order False (startNewSession keep_order [card_A])))
     \<noteq> length [card_A]"
  by code_simp


section \<open>App: importing files\<close>

text \<open>A loaded set whose topic is already in the library is dropped, the library is kept.\<close>

lemma handleFilesSelected_library:
  "\<exists>newSets. handleFilesSelected files library = library @ newSets \<and>
     (\<forall>ls \<in> set newSets. topic ls \<notin> topic ` set library)"
  by (auto simp: handleFilesSelected_def run_queue_def Let_def list_ex_iff)

text \<open>
  C9, at the input where the code departs from it: an empty library and a batch of two
  files whose sets have the same topic. The filter looks at the library only, so both
  sets are kept and share a topic. Had the first set been in the library already, the
  second one would have been dropped.
\<close>

theorem handleFilesSelected_batch_duplicate:
  "handleFilesSelected [file_one, file_two] [] = [set_biology, set_biology_other] \<and>
   topic set_biology = topic set_biology_other \<and>
   set_biology \<noteq> set_biology_other \<and>
   handleFilesSelected [file_two] [set_biology] = [set_biology]"
  by code_simp


section \<open>App: starring cards\<close>

lemma updateSet_Some:
  "updateSet cid (Some st) =
     Some (st\<lparr>cards :=
       map (\<lambda>c. if id_card c = cid then c\<lparr>isStarred := Some (not_flag (isStarred c))\<rparr> else c)
         (cards st)\<rparr>)"
  by (simp add: updateSet_def)

lemma toggle_twice_card:
  "isStarred c \<noteq> None \<Longrightarrow>
   c\<lparr>isStarred := Some (not_flag (Some (not_flag (isStarred c))))\<rparr> = c"
  by (cases "isStarred c") (simp_all add: not_flag_def)

lemma updateSet_twice:
  assumes "\<forall>c \<in> set (cards st). id_card c = cid \<longrightarrow> isStarred c \<noteq> None"
  shows "updateSet cid (updateSet cid (Some st)) = Some st"
proof -
  have "map ((\<lambda>c. if id_card c = cid then c\<lparr>isStarred := Some (not_flag (isStarred c))\<rparr> else c) \<circ>
             (\<lambda>c. if id_card c = cid then c\<lparr>isStarred := Some (not_flag (isStarred c))\<rparr> else c))
          (cards st) = map (\<lambda>c. c) (cards st)"
  proof (rule map_cong [OF refl])
    fix c assume "c \<in> set (cards st)"
    with assms have "id_card c = cid \<Longrightarrow> isStarred c \<noteq> None" by blast
    then show "((\<lambda>c. if id_card c = cid then c\<lparr>isStarred := Some (not_flag (isStarred c))\<rparr> else c) \<circ>
             (\<lambda>c. if id_card c = cid then c\<lparr>isStarred := Some (not_flag (isStarred c))\<rparr> else c)) c = c"
      by (simp add: toggle_twice_card)
  qed
  then show ?thesis by (simp add: updateSet_Some)
qed

text \<open>
  C10, as the code has it: toggling the star of a card id changes nothing but the star
  flag of the cards with that id: the topic, the number and order of the cards, and the id,
  term and definition of every card are kept, the flag of a card with another id is kept,
  and the flag of a card with that id becomes the negation of its truth value. Toggling
  twice gives back the original set when the flag of every card with that id is set (true or
  false).
\<close>

theorem handleToggleStar_flips:
  assumes "activeSet s = Some st"
  shows "\<exists>st'. activeSet (handleToggleStar cid s) = Some st' \<and>
     topic st' = topic st \<and> length (cards st') = length (cards st) \<and>
     (\<forall>i < length (cards st).
        id_card (cards st' ! i) = id_card (cards st ! i) \<and>
        term_card (cards st' ! i) = term_card (cards st ! i) \<and>
        definition_card (cards st' ! i) = definition_card (cards st ! i) \<and>
        isStarred (cards st' ! i) =
          (if id_card (cards st ! i) = cid then Some (not_flag (isStarred (cards st ! i)))
           else isStarred (cards st ! i))) \<and>
     ((\<forall>c \<in> set (cards st). id_card c = cid \<longrightarrow> isStarred c \<noteq> None) \<longrightarrow>
        activeSet (handleToggleStar cid (handleToggleStar cid s)) = Some st)"
proof -
  let ?f = "\<lambda>c. if id_card c = cid then c\<lparr>isStarred := Some (not_flag (isStarred c))\<rparr> else c"
  let ?st' = "st\<lparr>cards := map ?f (cards st)\<rparr>"
  have a: "activeSet (handleToggleStar cid s) = Some ?st'"
    using assms by (simp add: handleToggleStar_def run_queue_def updateSet_Some)
  have b: "activeSet (handleToggleStar cid (handleToggleStar cid s)) =
      updateSet cid (updateSet cid (Some st))"
    using assms by (simp add: handleToggleStar_def run_queue_def)
  have c: "topic ?st' = topic st \<and> length (cards ?st') = length (cards st)"
    by simp
  have d: "\<forall>i < length (cards st).
        id_card (cards ?st' ! i) = id_card (cards st ! i) \<and>
        term_card (cards ?st' ! i) = term_card (cards st ! i) \<and>
        definition_card (cards ?st' ! i) = definition_card (cards st ! i) \<and>
        isStarred (cards ?st' ! i) =
          (if id_card (cards st ! i) = cid then Some (not_flag (isStarred (cards st ! i)))
           else isStarred (cards st ! i))"
    by simp
  have e: "(\<forall>c \<in> set (cards st). id_card c = cid \<longrightarrow> isStarred c \<noteq> None) \<longrightarrow>
        activeSet (handleToggleStar cid (handleToggleStar cid s)) = Some st"
    unfolding b by (intro impI updateSet_twice)
  from a c d e show ?thesis by blast
qed

theorem handleToggleStar_flips_witness:
  "activeSet app_created = Some \<lparr>topic = ''Greek'', cards = [card_A, card_B]\<rparr> \<and>
   activeSet (handleToggleStar ''A'' app_created) =
     Some \<lparr>topic = ''Greek'', cards = [card_A\<lparr>isStarred := Some True\<rparr>, card_B]\<rparr> \<and>
   activeSet (handleToggleStar ''A'' (handleToggleStar ''A'' app_created)) =
     Some \<lparr>topic = ''Greek'', cards = [card_A, card_B]\<rparr>"
proof -
  have a: "activeSet app_created = Some \<lparr>topic = ''Greek'', cards = [card_A, card_B]\<rparr>"
    by (simp add: app_created_def)
  have f: "\<forall>c \<in> set (cards \<lparr>topic = ''Greek'', cards = [card_A, card_B]\<rparr>).
      id_card c = ''A'' \<longrightarrow> isStarred c \<noteq> None"
    by (simp add: card_A_def card_B_def del: not_None_eq)
  have v: "activeSet (handleToggleStar ''A'' app_created) =
     Some \<lparr>topic = ''Greek'', cards = [card_A\<lparr>isStarred := Some True\<rparr>, card_B]\<rparr>"
    by code_simp
  from handleToggleStar_flips [OF a, of "''A''"] f
  have "activeSet (handleToggleStar ''A'' (handleToggleStar ''A'' app_created)) =
     Some \<lparr>topic = ''Greek'', cards = [card_A, card_B]\<rparr>"
    by blast
  with a v show ?thesis by simp
qed

text \<open>
  The claim of C10 as it was stated fails for a card without the star property: after two
  toggles its flag is false, not absent, and the set is not the original one.
\<close>

theorem handleToggleStar_twice_counterexample:
  "activeSet (handleToggleStar ''A'' (handleToggleStar ''A'' app_imported)) \<noteq>
     activeSet app_imported \<and>
   activeSet (handleToggleStar ''A'' (handleToggleStar ''A'' app_imported)) =
     Some \<lparr>topic = ''Greek'', cards = [card_imported\<lparr>isStarred := Some False\<rparr>, card_B]\<rparr>"
  by code_simp


section \<open>Match mode\<close>

lemma completion_due_iff:
  "completion_due s \<longleftrightarrow>
     gridItems s \<noteq> [] \<and> matchedIds s \<noteq> [] \<and>
     length (matchedIds s) * 2 = length (gridItems s)"
proof -
  have "real (length (matchedIds s)) = real (length (gridItems s)) / 2 \<longleftrightarrow>
      real (length (matchedIds s) * 2) = real (length (gridItems s))"
    by (simp add: field_simps)
  also have "\<dots> \<longleftrightarrow> length (matchedIds s) * 2 = length (gridItems s)"
    by (rule of_nat_eq_iff)
  finally show ?thesis by (simp add: completion_due_def)
qed

text \<open>When the effect fires it sets the end time and leaves the grid and the matches.\<close>

lemma completion_effect_fires:
  assumes "completion_due s"
  shows "endTime (completion_effect finalTime s) = Some finalTime \<and>
         gridItems (completion_effect finalTime s) = gridItems s \<and>
         matchedIds (completion_effect finalTime s) = matchedIds s \<and>
         selectedItem (completion_effect finalTime s) = selectedItem s \<and>
         startTime (completion_effect finalTime s) = startTime s"
  using assms by (simp add: completion_effect_def Let_def split: option.split)

lemma completion_effect_idle: "\<not> completion_due s \<Longrightarrow> completion_effect finalTime s = s"
  by (simp add: completion_effect_def)

lemma handleItemClick_match:
  assumes "selectedItem s = Some sel" and "\<not> truthy (endTime s)"
    and "cardId item \<notin> set (matchedIds s)"
    and "cardId sel = cardId item \<and> type_item sel \<noteq> type_item item"
  shows "handleItemClick now item s =
     s\<lparr>startTime := (if truthy (startTime s) then startTime s else Some now),
       matchedIds := matchedIds s @ [cardId item], selectedItem := None\<rparr>"
  using assms by (simp add: handleItemClick_def run_queue_def Let_def)

lemma handleItemClick_mismatch:
  assumes "selectedItem s = Some sel" and "\<not> truthy (endTime s)"
    and "cardId item \<notin> set (matchedIds s)"
    and "\<not> (cardId sel = cardId item \<and> type_item sel \<noteq> type_item item)"
  shows "handleItemClick now item s =
     s\<lparr>startTime := (if truthy (startTime s) then startTime s else Some now),
       incorrectSelection := Some (id_item item)\<rparr>"
  using assms by (auto simp: handleItemClick_def run_queue_def Let_def)

text \<open>
  C8, as the code has it: while the game is running, a click on a second tile whose card
  is not matched yet adds the card id of the tile to the matched ids if and only if the two
  tiles have the same card id and different types; the click then also clears the
  selection. On any other pair, the same tile clicked twice included, the click sets the
  incorrect selection to the clicked tile and changes nothing else: matched ids, selection,
  grid, end time, best time and record flag are kept. In both cases the start time is set
  when the timer was not running yet. The completion effect, run on the state after the
  click, sets the end time exactly when the grid is not empty, at least one card is
  matched and twice the number of matched cards is the number of tiles; otherwise it
  leaves the state as it is.
\<close>

theorem handleItemClick_second_tile:
  assumes "selectedItem s = Some sel" and "\<not> truthy (endTime s)"
    and "cardId item \<notin> set (matchedIds s)"
    and "s' = handleItemClick now item s"
    and "started = (if truthy (startTime s) then startTime s else Some now)"
  shows "(matchedIds s' = matchedIds s @ [cardId item] \<longleftrightarrow>
            cardId sel = cardId item \<and> type_item sel \<noteq> type_item item) \<and>
         (cardId sel = cardId item \<and> type_item sel \<noteq> type_item item \<longrightarrow>
            s' = s\<lparr>startTime := started, matchedIds := matchedIds s @ [cardId item],
                   selectedItem := None\<rparr>) \<and>
         (\<not> (cardId sel = cardId item \<and> type_item sel \<noteq> type_item item) \<longrightarrow>
            s' = s\<lparr>startTime := started, incorrectSelection := Some (id_item item)\<rparr> \<and>
            matchedIds s' = matchedIds s \<and> selectedItem s' = Some sel \<and>
            gridItems s' = gridItems s \<and> endTime s' = endTime s \<and>
            bestTime s' = bestTime s \<and> isNewRecord s' = isNewRecord s \<and>
            incorrectSelection s' = Some (id_item item) \<and>
            (truthy (startTime s) \<longrightarrow> s' = s\<lparr>incorrectSelection := Some (id_item item)\<rparr>)) \<and>
         (gridItems s' \<noteq> [] \<and> matchedIds s' \<noteq> [] \<and>
          length (matchedIds s') * 2 = length (gridItems s') \<longrightarrow>
            endTime (completion_effect finalTime s') = Some finalTime \<and>
            gridItems (completion_effect finalTime s') = gridItems s' \<and>
            matchedIds (completion_effect finalTime s') = matchedIds s') \<and>
         (\<not> (gridItems s' \<noteq> [] \<and> matchedIds s' \<noteq> [] \<and>
             length (matchedIds s') * 2 = length (gridItems s')) \<longrightarrow>
            completion_effect finalTime s' = s')"
proof -
  let ?m = "cardId sel = cardId item \<and> type_item sel \<noteq> type_item item"
  have a: "?m \<longrightarrow> s' = s\<lparr>startTime := started, matchedIds := matchedIds s @ [cardId item],
                   selectedItem := None\<rparr>"
    unfolding assms(4,5) using handleItemClick_match [OF assms(1-3)] by blast
  have b: "\<not> ?m \<longrightarrow> s' = s\<lparr>startTime := started, incorrectSelection := Some (id_item item)\<rparr>"
    unfolding assms(4,5) using handleItemClick_mismatch [OF assms(1-3)] by blast
  have c: "matchedIds s' = matchedIds s @ [cardId item] \<longleftrightarrow> ?m"
  proof (cases ?m)
    case True
    with a show ?thesis by simp
  next
    case False
    with b have "matchedIds s' = matchedIds s" by simp
    with False show ?thesis by simp
  qed
  have d: "\<not> ?m \<longrightarrow>
            matchedIds s' = matchedIds s \<and> selectedItem s' = Some sel \<and>
            gridItems s' = gridItems s \<and> endTime s' = endTime s \<and>
            bestTime s' = bestTime s \<and> isNewRecord s' = isNewRecord s \<and>
            incorrectSelection s' = Some (id_item item) \<and>
            (truthy (startTime s) \<longrightarrow> s' = s\<lparr>incorrectSelection := Some (id_item item)\<rparr>)"
  proof
    assume "\<not> ?m"
    with b have e: "s' = s\<lparr>startTime := started, incorrectSelection := Some (id_item item)\<rparr>"
      by simp
    show "matchedIds s' = matchedIds s \<and> selectedItem s' = Some sel \<and>
            gridItems s' = gridItems s \<and> endTime s' = endTime s \<and>
            bestTime s' = bestTime s \<and> isNewRecord s' = isNewRecord s \<and>
            incorrectSelection s' = Some (id_item item) \<and>
            (truthy (startTime s) \<longrightarrow> s' = s\<lparr>incorrectSelection := Some (id_item item)\<rparr>)"
      unfolding e by (simp add: assms(1,5))
  qed
  have f: "gridItems s' \<noteq> [] \<and> matchedIds s' \<noteq> [] \<and>
          length (matchedIds s') * 2 = length (gridItems s') \<longrightarrow>
            endTime (completion_effect finalTime s') = Some finalTime \<and>
            gridItems (completion_effect finalTime s') = gridItems s' \<and>
            matchedIds (completion_effect finalTime s') = matchedIds s'"
    using completion_effect_fires [of s' finalTime] by (simp add: completion_due_iff)
  have g: "\<not> (gridItems s' \<noteq> [] \<and> matchedIds s' \<noteq> [] \<and>
             length (matchedIds s') * 2 = length (gridItems s')) \<longrightarrow>
            completion_effect finalTime s' = s'"
    using completion_effect_idle [of s' finalTime] by (simp add: completion_due_iff)
  from a b c d f g show ?thesis by blast
qed

theorem handleItemClick_second_tile_witness:
  "selectedItem game_A_selected = Some tile_A_term \<and>
   handleItemClick 2000 tile_A_def game_A_selected =
     game_A_selected\<lparr>matchedIds := [''A''], selectedItem := None\<rparr> \<and>
   completion_effect 2500 (handleItemClick 2000 tile_A_def game_A_selected) =
     handleItemClick 2000 tile_A_def game_A_selected \<and>
   handleItemClick 2000 tile_B_def game_A_selected =
     game_A_selected\<lparr>incorrectSelection := Some ''B-def''\<rparr> \<and>
   handleItemClick 2000 tile_A_term game_A_selected =
     game_A_selected\<lparr>incorrectSelection := Some ''A-term''\<rparr> \<and>
   selectedItem game_B_selected = Some tile_B_term \<and>
   matchedIds (handleItemClick 4000 tile_B_def game_B_selected) = [''A'', ''B''] \<and>
   length (gridItems (handleItemClick 4000 tile_B_def game_B_selected)) = 4 \<and>
   endTime (handleItemClick 4000 tile_B_def game_B_selected) = None \<and>
   endTime (completion_effect 4000 (handleItemClick 4000 tile_B_def game_B_selected)) = Some 4000"
proof -
  have s: "selectedItem game_A_selected = Some tile_A_term"
    and e: "\<not> truthy (endTime game_A_selected)"
    and m: "matchedIds game_A_selected = []"
    and g: "length (gridItems game_A_selected) = 4"
    and st: "truthy (startTime game_A_selected)"
    by code_simp+
  have sB: "selectedItem game_B_selected = Some tile_B_term"
    and eB: "\<not> truthy (endTime game_B_selected)"
    and eB': "endTime game_B_selected = None"
    and mB: "matchedIds game_B_selected = [''A'']"
    and gB: "length (gridItems game_B_selected) = 4"
    and stB: "truthy (startTime game_B_selected)"
    by code_simp+
  have n: "cardId tile_A_def \<notin> set (matchedIds game_A_selected)"
    "cardId tile_B_def \<notin> set (matchedIds game_A_selected)"
    "cardId tile_A_term \<notin> set (matchedIds game_A_selected)"
    by (simp_all add: m)
  have t: "cardId tile_A_term = ''A''" "cardId tile_A_def = ''A''" "cardId tile_B_def = ''B''"
    "cardId tile_B_term = ''B''"
    "type_item tile_A_term = term_item" "type_item tile_A_def = definition_item"
    "type_item tile_B_def = definition_item" "type_item tile_B_term = term_item"
    "id_item tile_B_def = ''B-def''" "id_item tile_A_term = ''A-term''"
    by (simp_all add: tile_A_term_def tile_A_def_def tile_B_def_def tile_B_term_def)
  have nB: "cardId tile_B_def \<notin> set (matchedIds game_B_selected)"
    by (simp add: mB t)
  note a = handleItemClick_second_tile [OF s e n(1) refl refl, of 2000 2500]
  note b = handleItemClick_second_tile [OF s e n(2) refl refl, of 2000 2500]
  note c = handleItemClick_second_tile [OF s e n(3) refl refl, of 2000 2500]
  note d = handleItemClick_second_tile [OF sB eB nB refl refl, of 4000 4000]
  from a have a1: "handleItemClick 2000 tile_A_def game_A_selected =
      game_A_selected\<lparr>matchedIds := [''A''], selectedItem := None\<rparr>"
    by (simp add: t m st)
  have a2: "length (matchedIds (handleItemClick 2000 tile_A_def game_A_selected)) * 2 \<noteq>
      length (gridItems (handleItemClick 2000 tile_A_def game_A_selected))"
    unfolding a1 by (simp add: g)
  from a a2 have a3: "completion_effect 2500 (handleItemClick 2000 tile_A_def game_A_selected) =
      handleItemClick 2000 tile_A_def game_A_selected"
    by blast
  from b have b1: "handleItemClick 2000 tile_B_def game_A_selected =
      game_A_selected\<lparr>incorrectSelection := Some ''B-def''\<rparr>"
    by (simp add: t st)
  from c have c1: "handleItemClick 2000 tile_A_term game_A_selected =
      game_A_selected\<lparr>incorrectSelection := Some ''A-term''\<rparr>"
    by (simp add: t st)
  from d have d0: "handleItemClick 4000 tile_B_def game_B_selected =
      game_B_selected\<lparr>matchedIds := [''A'', ''B''], selectedItem := None\<rparr>"
    by (simp add: t mB stB)
  have d1: "matchedIds (handleItemClick 4000 tile_B_def game_B_selected) = [''A'', ''B'']"
    and d2: "length (gridItems (handleItemClick 4000 tile_B_def game_B_selected)) = 4"
    and d3: "endTime (handleItemClick 4000 tile_B_def game_B_selected) = None"
    unfolding d0 by (simp_all add: gB eB')
  have d4: "gridItems (handleItemClick 4000 tile_B_def game_B_selected) \<noteq> []"
    using d2 by auto
  from d d1 d2 d4
  have d5: "endTime (completion_effect 4000 (handleItemClick 4000 tile_B_def game_B_selected)) =
      Some 4000"
    by simp
  from s a1 a3 b1 c1 sB d1 d2 d3 d5 show ?thesis by simp
qed

text \<open>
  The claim of C8 as it was stated fails for the empty snapshot: the grid has no tiles and
  no card is matched, so twice the number of matched cards is the number of tiles, and
  the completion effect leaves the state as it is, without an end time.
\<close>

theorem completion_empty_grid_counterexample:
  "length (matchedIds game_empty) * 2 = length (gridItems game_empty) \<and>
   completion_effect 5000 game_empty = game_empty \<and>
   endTime (completion_effect 5000 game_empty) = None"
  by code_simp


section \<open>Test mode: generateQuestions\<close>

lemma length_filter_mset_eq:
  assumes "mset xs = mset ys"
  shows "length (filter P xs) = length (filter P ys)"
proof -
  have "mset (filter P xs) = mset (filter P ys)"
    using assms by (simp only: mset_filter)
  then show ?thesis by (rule mset_eq_length)
qed

lemma length_filter_enumerate:
  "length (filter (\<lambda>p. fst p < k) (enumerate m xs)) = min (k - m) (length xs)"
proof (induction xs arbitrary: m)
  case Nil
  show ?case by simp
next
  case (Cons x xs)
  show ?case using Cons.IH [of "Suc m"] by (cases "m < k") auto
qed

lemma length_filter_other_ids:
  fixes cs :: "flashcard list"
  assumes "distinct (map id_card cs)" and "c \<in> set cs"
  shows "length (filter (\<lambda>x. id_card x \<noteq> id_card c) cs) = length cs - 1"
  using assms
proof (induction cs)
  case Nil
  then show ?case by simp
next
  case (Cons a cs)
  show ?case
  proof (cases "id_card a = id_card c")
    case True
    have "\<forall>x \<in> set cs. id_card x \<noteq> id_card c"
    proof (intro ballI notI)
      fix x assume "x \<in> set cs" "id_card x = id_card c"
      then have "id_card c \<in> id_card ` set cs" by (metis imageI)
      with Cons.prems(1) True show False by simp
    qed
    then have "filter (\<lambda>x. id_card x \<noteq> id_card c) cs = cs"
      by (simp add: filter_id_conv)
    with True show ?thesis by simp
  next
    case False
    with Cons.prems(2) have c: "c \<in> set cs" by auto
    then have "length cs \<ge> 1" by (cases cs) auto
    moreover from Cons.IH Cons.prems(1) c
    have "length (filter (\<lambda>x. id_card x \<noteq> id_card c) cs) = length cs - 1" by simp
    ultimately show ?thesis using False by simp
  qed
qed

lemma type_build_question:
  "type_question (build_question so sq cs (i, c)) = (if i < length cs div 2 then mc else written)"
  by (simp add: build_question_def Let_def)

lemma card_build_question: "card_question (build_question so sq cs (i, c)) = c"
  by (simp add: build_question_def Let_def)

lemma options_build_question:
  "i < length cs div 2 \<Longrightarrow>
   options (build_question so sq cs (i, c)) =
     Some (sq i (term_card c #
       map term_card (take 3 (so i (filter (\<lambda>x. id_card x \<noteq> id_card c) cs)))))"
  by (simp add: build_question_def Let_def)

lemma count_mc_questions:
  "length (filter (\<lambda>q. type_question q = mc) (map (build_question so sq cs) (enumerate 0 xs))) =
     min (length cs div 2) (length xs)"
proof -
  have "(\<lambda>q. type_question q = mc) \<circ> build_question so sq cs = (\<lambda>p. fst p < length cs div 2)"
    by (simp add: fun_eq_iff type_build_question)
  then show ?thesis
    using length_filter_enumerate [of "length cs div 2" 0 xs] by (simp add: filter_map)
qed

lemma written_iff_not_mc: "type_question q = written \<longleftrightarrow> \<not> type_question q = mc"
  by (cases "type_question q") simp_all

lemma count_written_questions:
  "length (filter (\<lambda>q. type_question q = written) qs) =
     length qs - length (filter (\<lambda>q. type_question q = mc) qs)"
  using sum_length_filter_compl [of "\<lambda>q. type_question q = mc" qs]
  by (simp add: written_iff_not_mc)

lemma mc_question_options:
  fixes cs :: "flashcard list"
  assumes so: "is_shuffle (so i)" and sq: "is_shuffle (sq i)"
    and ids: "distinct (map id_card cs)" and c: "c \<in> set cs" and i: "i < length cs div 2"
  shows "\<exists>opts others. options (build_question so sq cs (i, c)) = Some opts \<and>
           mset opts = mset (term_card c # map term_card others) \<and>
           length others = min 3 (length cs - 1) \<and> distinct others \<and>
           set others \<subseteq> {x \<in> set cs. id_card x \<noteq> id_card c}"
proof -
  let ?o = "filter (\<lambda>x. id_card x \<noteq> id_card c) cs"
  let ?others = "take 3 (so i ?o)"
  let ?opts = "sq i (term_card c # map term_card ?others)"
  have 1: "options (build_question so sq cs (i, c)) = Some ?opts"
    using i by (rule options_build_question)
  have 2: "mset ?opts = mset (term_card c # map term_card ?others)"
    using sq by (rule is_shuffleD)
  have 3: "length ?others = min 3 (length cs - 1)"
    by (simp add: is_shuffle_length [OF so] length_filter_other_ids [OF ids c] min.commute)
  from ids have "distinct cs" by (simp add: distinct_map)
  then have "distinct ?o" by simp
  then have "distinct (so i ?o)"
    using is_shuffleD [OF so, of ?o] by (metis mset_eq_imp_distinct_iff)
  then have 4: "distinct ?others" by simp
  have "set ?others \<subseteq> set (so i ?o)" by (rule set_take_subset)
  then have 5: "set ?others \<subseteq> {x \<in> set cs. id_card x \<noteq> id_card c}"
    by (auto simp: is_shuffle_set [OF so])
  from 1 2 3 4 5 show ?thesis by blast
qed

lemma count_own_term:
  assumes "mset opts = mset (t # map term_card others)"
    and "\<forall>x \<in> set others. term_card x \<noteq> t"
  shows "count_list opts t = 1"
proof -
  have "count_list opts t = count_list (t # map term_card others) t"
    using assms(1) by (rule mset_eq_length_filter)
  moreover have "count_list (map term_card others) t = 0"
    using assms(2) by (auto simp: count_list_0_iff)
  ultimately show ?thesis by simp
qed

text \<open>
  C7, as the code has it: for every snapshot of N cards with unique ids and any outcome of
  the shuffles, the builder produces floor(N/2) multiple-choice questions and
  N - floor(N/2) free-text questions. The options of a multiple-choice question are a
  permutation of the term of its own card and the terms of min(3, N - 1) different other
  cards of the snapshot: the own term is among them, and it is there exactly once when no
  other card of the snapshot has the same term.
\<close>

theorem generateQuestions_counts_and_options:
  fixes cs :: "flashcard list"
  assumes "is_shuffle shuffle_cards" and "\<forall>i. is_shuffle (shuffle_others i)"
    and "\<forall>i. is_shuffle (shuffle_options i)" and "is_shuffle shuffle_questions"
    and "distinct (map id_card cs)"
    and "qs = generateQuestions shuffle_cards shuffle_others shuffle_options shuffle_questions cs"
  shows "length (filter (\<lambda>q. type_question q = mc) qs) = length cs div 2 \<and>
     length (filter (\<lambda>q. type_question q = written) qs) = length cs - length cs div 2 \<and>
     (\<forall>q \<in> set qs. type_question q = mc \<longrightarrow>
        card_question q \<in> set cs \<and>
        (\<exists>opts others. options q = Some opts \<and>
           mset opts = mset (term_card (card_question q) # map term_card others) \<and>
           length others = min 3 (length cs - 1) \<and> distinct others \<and>
           set others \<subseteq> {x \<in> set cs. id_card x \<noteq> id_card (card_question q)} \<and>
           term_card (card_question q) \<in> set opts \<and>
           length opts = 1 + min 3 (length cs - 1) \<and>
           ((\<forall>x \<in> set cs. id_card x \<noteq> id_card (card_question q) \<longrightarrow>
                term_card x \<noteq> term_card (card_question q)) \<longrightarrow>
              count_list opts (term_card (card_question q)) = 1)))"
proof -
  let ?xs = "shuffle_cards cs"
  let ?f = "build_question shuffle_others shuffle_options cs"
  let ?nq = "map ?f (enumerate 0 ?xs)"
  have qs: "qs = shuffle_questions ?nq"
    using assms(6) by (simp add: generateQuestions_def Let_def)
  have m: "mset qs = mset ?nq"
    unfolding qs using assms(4) by (rule is_shuffleD)
  have len: "length ?xs = length cs"
    using assms(1) by (rule is_shuffle_length)
  have lq: "length qs = length cs"
    using mset_eq_length [OF m] len by simp
  have "length (filter (\<lambda>q. type_question q = mc) qs) =
      length (filter (\<lambda>q. type_question q = mc) ?nq)"
    using m by (rule length_filter_mset_eq)
  also have "\<dots> = min (length cs div 2) (length ?xs)"
    by (rule count_mc_questions)
  also have "\<dots> = length cs div 2"
    by (simp add: len)
  finally have a: "length (filter (\<lambda>q. type_question q = mc) qs) = length cs div 2" .
  have b: "length (filter (\<lambda>q. type_question q = written) qs) = length cs - length cs div 2"
    using count_written_questions [of qs] a lq by simp
  have c: "\<forall>q \<in> set qs. type_question q = mc \<longrightarrow>
        card_question q \<in> set cs \<and>
        (\<exists>opts others. options q = Some opts \<and>
           mset opts = mset (term_card (card_question q) # map term_card others) \<and>
           length others = min 3 (length cs - 1) \<and> distinct others \<and>
           set others \<subseteq> {x \<in> set cs. id_card x \<noteq> id_card (card_question q)} \<and>
           term_card (card_question q) \<in> set opts \<and>
           length opts = 1 + min 3 (length cs - 1) \<and>
           ((\<forall>x \<in> set cs. id_card x \<noteq> id_card (card_question q) \<longrightarrow>
                term_card x \<noteq> term_card (card_question q)) \<longrightarrow>
              count_list opts (term_card (card_question q)) = 1))"
  proof (intro ballI impI)
    fix q assume q: "q \<in> set qs" and t: "type_question q = mc"
    from q have "q \<in> set ?nq" using mset_eq_setD [OF m] by simp
    then obtain i c where ic: "(i, c) \<in> set (enumerate 0 ?xs)" and qf: "q = ?f (i, c)"
      by auto
    from ic have "c \<in> set ?xs" by (auto simp: in_set_enumerate_eq)
    then have cin: "c \<in> set cs" by (simp add: is_shuffle_set [OF assms(1)])
    from t qf have i: "i < length cs div 2"
      by (simp add: type_build_question split: if_splits)
    have cq: "card_question q = c" by (simp add: qf card_build_question)
    from assms(2,3) have so: "is_shuffle (shuffle_others i)" and sq: "is_shuffle (shuffle_options i)"
      by simp_all
    from mc_question_options
      [where so = shuffle_others and sq = shuffle_options and i = i and c = c and cs = cs,
       OF so sq assms(5) cin i]
    obtain opts others where o: "options q = Some opts"
      "mset opts = mset (term_card c # map term_card others)"
      "length others = min 3 (length cs - 1)" "distinct others"
      "set others \<subseteq> {x \<in> set cs. id_card x \<noteq> id_card c}"
      unfolding qf by blast
    from o(2) have "set opts = set (term_card c # map term_card others)"
      by (rule mset_eq_setD)
    then have own: "term_card c \<in> set opts" by simp
    from o(2) have "length opts = length (term_card c # map term_card others)"
      by (rule mset_eq_length)
    then have lo: "length opts = 1 + min 3 (length cs - 1)" by (simp add: o(3))
    have once: "count_list opts (term_card c) = 1"
      if "\<forall>x \<in> set cs. id_card x \<noteq> id_card c \<longrightarrow> term_card x \<noteq> term_card c"
    proof (rule count_own_term [OF o(2)])
      show "\<forall>x \<in> set others. term_card x \<noteq> term_card c"
        using that o(5) by blast
    qed
    show "card_question q \<in> set cs \<and>
        (\<exists>opts others. options q = Some opts \<and>
           mset opts = mset (term_card (card_question q) # map term_card others) \<and>
           length others = min 3 (length cs - 1) \<and> distinct others \<and>
           set others \<subseteq> {x \<in> set cs. id_card x \<noteq> id_card (card_question q)} \<and>
           term_card (card_question q) \<in> set opts \<and>
           length opts = 1 + min 3 (length cs - 1) \<and>
           ((\<forall>x \<in> set cs. id_card x \<noteq> id_card (card_question q) \<longrightarrow>
                term_card x \<noteq> term_card (card_question q)) \<longrightarrow>
              count_list opts (term_card (card_question q)) = 1))"
      unfolding cq using cin o own lo once by blast
  qed
  from a b c show ?thesis by blast
qed

theorem generateQuestions_counts_and_options_witness:
  "is_shuffle (keep_order :: flashcard list \<Rightarrow> flashcard list) \<and>
   distinct (map id_card [card_A, card_B, card_C]) \<and>
   length (filter (\<lambda>q. type_question q = mc)
     (generateQuestions keep_order (\<lambda>i. keep_order) (\<lambda>i. keep_order) keep_order
        [card_A, card_B, card_C])) = 1 \<and>
   length (filter (\<lambda>q. type_question q = written)
     (generateQuestions keep_order (\<lambda>i. keep_order) (\<lambda>i. keep_order) keep_order
        [card_A, card_B, card_C])) = 2 \<and>
   options (generateQuestions keep_order (\<lambda>i. keep_order) (\<lambda>i. keep_order) keep_order
        [card_A, card_B, card_C] ! 0) = Some [''alpha'', ''beta'', ''gamma'']"
proof -
  have d: "distinct (map id_card [card_A, card_B, card_C])"
    by (simp add: card_A_def card_B_def card_C_def)
  have o: "options (generateQuestions keep_order (\<lambda>i. keep_order) (\<lambda>i. keep_order) keep_order
        [card_A, card_B, card_C] ! 0) = Some [''alpha'', ''beta'', ''gamma'']"
    by code_simp
  note t = generateQuestions_counts_and_options
    [OF is_shuffle_keep_order _ _ is_shuffle_keep_order d refl,
     of "\<lambda>i. keep_order" "\<lambda>i. keep_order"]
  have "length (filter (\<lambda>q. type_question q = mc)
     (generateQuestions keep_order (\<lambda>i. keep_order) (\<lambda>i. keep_order) keep_order
        [card_A, card_B, card_C])) = 1"
    and "length (filter (\<lambda>q. type_question q = written)
     (generateQuestions keep_order (\<lambda>i. keep_order) (\<lambda>i. keep_order) keep_order
        [card_A, card_B, card_C])) = 2"
    using t by (simp_all add: is_shuffle_keep_order)
  with d o is_shuffle_keep_order show ?thesis by simp
qed

text \<open>
  The claim of C7 as it was stated fails for two cards with the same term: the options
  of the multiple-choice question hold the term of its card twice.
\<close>

theorem generateQuestions_same_term_counterexample:
  "generateQuestions keep_order (\<lambda>i. keep_order) (\<lambda>i. keep_order) keep_order
     [card_bank_river, card_bank_money] =
     [\<lparr>id_question = ''1'', type_question = mc, card_question = card_bank_river,
       options = Some [''bank'', ''bank'']\<rparr>,
      \<lparr>id_question = ''2'', type_question = written, card_question = card_bank_money,
       options = None\<rparr>] \<and>
   term_card card_bank_river = ''bank'' \<and>
   count_list [''bank'', ''bank''] ''bank'' = (2 :: nat) \<and>
   id_card card_bank_river \<noteq> id_card card_bank_money"
  by code_simp

end
